theory Spec2Isabelle
  imports Main "HOL-Library.Word"
begin

unbundle bit_operations_syntax

section \<open>Machine integers, places and protobuf payloads\<close>

text \<open>
  \<open>uint32_t\<close> and \<open>int32_t\<close> are both 32-bit words; the signed reading is \<open>sint\<close>.
  A conversion between the two keeps the bits, so it is the identity on the model.
\<close>

type_synonym u32 = "32 word"
type_synonym i32 = "32 word"

text \<open>\<open>Place\<close> = (controller, location, sequence, overlay\_sequence);
  \<open>TempPlace\<close> = (state, controller, location, sequence, overlay\_sequence);
  \<open>Counter\<close> = (type, count).\<close>

type_synonym Place = "u32 \<times> u32 \<times> u32 \<times> i32"
type_synonym TempPlace = "u32 \<times> u32 \<times> u32 \<times> u32 \<times> i32"
type_synonym Counter = "u32 \<times> u32"

text \<open>
  The enumerators of \<open>common/enums/location.hpp\<close> and \<open>common/enums/position.hpp\<close> are
  used by \<open>board.hpp\<close> but declared in headers that are not part of the sources at hand.
  Their numeric values are therefore a parameter of every definition that reads them.
\<close>

record enums =
  LocationMainDeck :: u32
  LocationHand :: u32
  LocationGraveyard :: u32
  LocationBanished :: u32
  LocationExtraDeck :: u32
  LocationMonsterZone :: u32
  LocationSpellZone :: u32
  LocationOverlay :: u32
  LocationOnField :: u32
  LocationFieldZone :: u32
  LocationPendulumZone :: u32
  PositionFaceDown :: u32

text \<open>
  The protobuf messages of \<open>core\_data.pb.h\<close> and \<open>core\_msg.pb.h\<close>, as far as
  \<open>board.hpp\<close> reads them (the generated headers are not part of the sources at hand;
  the fields are the accessors the handlers call, 32-bit as the cells they are stored in).
\<close>

record PbPlace =
  pl_controller :: u32
  pl_location :: u32
  pl_sequence :: u32

record CardInfo =
  ci_controller :: u32
  ci_location :: u32
  ci_sequence :: u32
  ci_overlay_sequence :: i32
  ci_code :: u32
  ci_position :: u32

record PbCounter =
  cn_type :: u32
  cn_count :: u32

datatype Reason = REASON_DECK_TOP | REASON_MOVE | REASON_POS_CHANGE | REASON_SET

datatype CounterChangeType = CHANGE_ADD | CHANGE_REMOVE

datatype LpChangeType = CHANGE_DAMAGE | CHANGE_PAY | CHANGE_RECOVER | CHANGE_BECOME

datatype Information =
    UpdateCard Reason CardInfo CardInfo
  | AddCard CardInfo
  | RemoveCard CardInfo
  | Draw u32 "CardInfo list"
  | SwapCards CardInfo CardInfo
  | ShuffleLocation u32 u32 "CardInfo list"
  | ShuffleSetCards "CardInfo list" "CardInfo list"
  | CounterChange CounterChangeType PbPlace PbCounter
  | DisableZones "PbPlace list"
  | LpChange u32 LpChangeType u32
  | NewTurn u32
  | NewPhase u32
  | MatchKiller | Result | Hint | Win | ConfirmCards | SummonCard
  | SelectedCards | OnAttack | CardHint | PlayerHint
  | OtherInformation

datatype AnyMsg = InformationMsg Information | OtherMsg

definition IsPile_location :: "enums \<Rightarrow> u32 \<Rightarrow> bool" where
  "IsPile_location L location =
     ((LocationMonsterZone L OR LocationSpellZone L OR LocationOverlay L OR
       LocationOnField L OR LocationFieldZone L OR LocationPendulumZone L)
      AND location = 0)"

definition IsPile :: "enums \<Rightarrow> Place \<Rightarrow> bool" where
  "IsPile L place = IsPile_location L (fst (snd place))"

definition PlaceFromProtobufPlace :: "PbPlace \<Rightarrow> Place" where
  "PlaceFromProtobufPlace p = (pl_controller p, pl_location p, pl_sequence p, - 1)"

definition PlaceFromCardInfo :: "enums \<Rightarrow> CardInfo \<Rightarrow> Place" where
  "PlaceFromCardInfo L cd =
     (ci_controller cd, ci_location cd, ci_sequence cd,
      if ci_location cd AND LocationOverlay L \<noteq> 0 then ci_overlay_sequence cd else - 1)"

definition CounterFromProtobufCounter :: "PbCounter \<Rightarrow> Counter" where
  "CounterFromProtobufCounter c = (cn_type c, cn_count c)"

definition place_sequence :: "Place \<Rightarrow> nat" where
  "place_sequence place = unat (fst (snd (snd place)))"

section \<open>The temporal cell \<open>Sequential\<close>\<close>

text \<open>
  \<open>Sequential<T>\<close> is a \<open>std::list<T>\<close> with an iterator into it. The model keeps the
  list and the iterator's distance from \<open>begin()\<close>; \<open>seq_it = length seq_l\<close> is \<open>end()\<close>.
  Incrementing \<open>end()\<close>, decrementing \<open>begin()\<close> and dereferencing \<open>end()\<close> are
  undefined behaviour in C++: the operations return \<open>None\<close> there.
\<close>

record 'a Sequential =
  seq_l :: "'a list"
  seq_it :: nat

definition Sequential_init :: "'a \<Rightarrow> 'a Sequential" where
  "Sequential_init d = \<lparr>seq_l = [d], seq_it = 0\<rparr>"

definition AddOrNext :: "bool \<Rightarrow> 'a \<Rightarrow> 'a Sequential \<Rightarrow> 'a Sequential option" where
  "AddOrNext add v s =
     (if length (seq_l s) \<le> seq_it s then None
      else Some \<lparr>seq_l = (if add then seq_l s @ [v] else seq_l s), seq_it = Suc (seq_it s)\<rparr>)"

definition Prev :: "'a Sequential \<Rightarrow> 'a Sequential option" where
  "Prev s = (if seq_it s = 0 then None else Some (s\<lparr>seq_it := seq_it s - 1\<rparr>))"

definition Sequential_get :: "'a Sequential \<Rightarrow> 'a option" where
  "Sequential_get s = (if seq_it s < length (seq_l s) then Some (seq_l s ! seq_it s) else None)"

text \<open>The state a \<open>Sequential\<close> is left in after \<open>std::move\<close>: the standard only promises
  a valid but unspecified object. The model takes the empty list, on which every operation
  above is undefined.\<close>

definition Sequential_moved_from :: "'a Sequential" where
  "Sequential_moved_from = \<lparr>seq_l = [], seq_it = 0\<rparr>"

section \<open>Cards\<close>

text \<open>The field \<open>alias\<close> of the source is \<open>aliasCode\<close> here (\<open>alias\<close> is an Isabelle
  keyword). \<open>counters\<close> is a \<open>std::map\<close>; it is iterated by \<open>ClearAllCounters\<close>, so the
  model is an association list with unique keys. The loop bodies act on each entry alone,
  hence the iteration order cannot be observed and new keys are put at the end.\<close>

record Card =
  pos :: "u32 Sequential"
  code :: "u32 Sequential"
  aliasCode :: "u32 Sequential"
  type :: "u32 Sequential"
  level :: "i32 Sequential"
  rank :: "u32 Sequential"
  attr :: "u32 Sequential"
  race :: "u32 Sequential"
  atk :: "i32 Sequential"
  def :: "i32 Sequential"
  bAtk :: "i32 Sequential"
  bDef :: "i32 Sequential"
  owner :: "u32 Sequential"
  lscale :: "u32 Sequential"
  rscale :: "u32 Sequential"
  links :: "u32 Sequential"
  counters :: "(u32 \<times> u32 Sequential) list"

definition Card_init :: Card where
  "Card_init =
     \<lparr>pos = Sequential_init 0, code = Sequential_init 0, aliasCode = Sequential_init 0,
      type = Sequential_init 0, level = Sequential_init (- 1), rank = Sequential_init 0,
      attr = Sequential_init 0, race = Sequential_init 0, atk = Sequential_init (- 1),
      def = Sequential_init (- 1), bAtk = Sequential_init (- 1), bDef = Sequential_init (- 1),
      owner = Sequential_init 0, lscale = Sequential_init 0, rscale = Sequential_init 0,
      links = Sequential_init 0, counters = []\<rparr>"

definition Card_moved_from :: Card where
  "Card_moved_from =
     \<lparr>pos = Sequential_moved_from, code = Sequential_moved_from,
      aliasCode = Sequential_moved_from, type = Sequential_moved_from,
      level = Sequential_moved_from, rank = Sequential_moved_from,
      attr = Sequential_moved_from, race = Sequential_moved_from,
      atk = Sequential_moved_from, def = Sequential_moved_from,
      bAtk = Sequential_moved_from, bDef = Sequential_moved_from,
      owner = Sequential_moved_from, lscale = Sequential_moved_from,
      rscale = Sequential_moved_from, links = Sequential_moved_from, counters = []\<rparr>"

definition code_step :: "(u32 Sequential \<Rightarrow> u32 Sequential option) \<Rightarrow> Card \<Rightarrow> Card option" where
  "code_step f c = map_option (\<lambda>s. c\<lparr>code := s\<rparr>) (f (code c))"

definition pos_step :: "(u32 Sequential \<Rightarrow> u32 Sequential option) \<Rightarrow> Card \<Rightarrow> Card option" where
  "pos_step f c = map_option (\<lambda>s. c\<lparr>pos := s\<rparr>) (f (pos c))"

text \<open>\<open>for (auto& x : xs) body(x)\<close>: every element is replaced by the result of the body;
  the loop is undefined as soon as one body is.\<close>

primrec for_each :: "('a \<Rightarrow> 'a option) \<Rightarrow> 'a list \<Rightarrow> 'a list option" where
  "for_each f [] = Some []"
| "for_each f (x # xs) =
     (case f x of None \<Rightarrow> None
      | Some y \<Rightarrow> (case for_each f xs of None \<Rightarrow> None | Some ys \<Rightarrow> Some (y # ys)))"

definition entry_step :: "('v \<Rightarrow> 'v option) \<Rightarrow> 'k \<times> 'v \<Rightarrow> ('k \<times> 'v) option" where
  "entry_step f kv = map_option (\<lambda>v. (fst kv, v)) (f (snd kv))"

definition ClearAllCounters_card :: "bool \<Rightarrow> bool \<Rightarrow> Card \<Rightarrow> Card option" where
  "ClearAllCounters_card adv rt c =
     map_option (\<lambda>cs. c\<lparr>counters := cs\<rparr>)
       (if adv then for_each (entry_step (AddOrNext rt 0)) (counters c)
        else for_each (entry_step Prev) (counters c))"

section \<open>The board\<close>

text \<open>
  \<open>std::array<T, 2>\<close> is a pair; the index is checked where the source subscripts it
  (an index of 2 or more is out of bounds, hence undefined).
  \<open>fieldZones\<close> and \<open>tempCards\<close> are \<open>std::map\<close>s that are never iterated: partial
  functions. \<open>disabledZones\<close> is iterated by \<open>HandleDisableZones\<close>: an association list
  with unique keys, in insertion order (the loop bodies act on each entry alone).
\<close>

record DuelBoard =
  turn :: u32
  playerLP :: "u32 Sequential \<times> u32 Sequential"
  turnPlayer :: "u32 Sequential"
  phase :: "u32 Sequential"
  deck :: "Card list \<times> Card list"
  hand :: "Card list \<times> Card list"
  grave :: "Card list \<times> Card list"
  rmp :: "Card list \<times> Card list"
  eDeck :: "Card list \<times> Card list"
  fieldZones :: "Place \<rightharpoonup> Card"
  disabledZones :: "(Place \<times> bool Sequential) list"
  realtime :: bool
  advancing :: bool
  state :: u32
  processedState :: u32
  msgs :: "AnyMsg list"
  tempCards :: "TempPlace \<rightharpoonup> Card"

definition arr_at :: "'a \<times> 'a \<Rightarrow> u32 \<Rightarrow> 'a" where
  "arr_at a i = (if i = 0 then fst a else snd a)"

definition arr_upd :: "'a \<times> 'a \<Rightarrow> u32 \<Rightarrow> 'a \<Rightarrow> 'a \<times> 'a" where
  "arr_upd a i v = (if i = 0 then (v, snd a) else (fst a, v))"

text \<open>
  What a call can end in: it returns (\<open>Done\<close>, with the value and the board as it is
  then), it throws (\<open>Threw\<close>, with the board as it is at the \<open>throw\<close>; the source throws
  a bare \<open>std::exception\<close>, the constructors name the two places that do), or it runs
  into undefined behaviour (\<open>Undefined\<close>: an out-of-range subscript or iterator).
\<close>

datatype exn = UnknownLocation | IllegalMove | LengthError

datatype 'a result = Done 'a DuelBoard | Threw exn DuelBoard | Undefined

definition and_then :: "'a result \<Rightarrow> ('a \<Rightarrow> DuelBoard \<Rightarrow> 'b result) \<Rightarrow> 'b result" where
  "and_then r f = (case r of Done x b \<Rightarrow> f x b | Threw e b \<Rightarrow> Threw e b | Undefined \<Rightarrow> Undefined)"

definition defined :: "'a option \<Rightarrow> DuelBoard \<Rightarrow> 'a result" where
  "defined x b = (case x of None \<Rightarrow> Undefined | Some y \<Rightarrow> Done y b)"

subsection \<open>Piles\<close>

text \<open>A \<open>Pile<C>&\<close> is one of the five arrays of the \<open>LOCATIONS\<close> macro and an index into it.\<close>

datatype PileId = PDeck | PHand | PGrave | PRmp | PEDeck

type_synonym PileRef = "PileId \<times> u32"

definition pile :: "DuelBoard \<Rightarrow> PileRef \<Rightarrow> Card list" where
  "pile b r =
     arr_at (case fst r of PDeck \<Rightarrow> deck b | PHand \<Rightarrow> hand b | PGrave \<Rightarrow> grave b
             | PRmp \<Rightarrow> rmp b | PEDeck \<Rightarrow> eDeck b) (snd r)"

definition set_pile :: "DuelBoard \<Rightarrow> PileRef \<Rightarrow> Card list \<Rightarrow> DuelBoard" where
  "set_pile b r xs =
     (case fst r of
        PDeck \<Rightarrow> b\<lparr>deck := arr_upd (deck b) (snd r) xs\<rparr>
      | PHand \<Rightarrow> b\<lparr>hand := arr_upd (hand b) (snd r) xs\<rparr>
      | PGrave \<Rightarrow> b\<lparr>grave := arr_upd (grave b) (snd r) xs\<rparr>
      | PRmp \<Rightarrow> b\<lparr>rmp := arr_upd (rmp b) (snd r) xs\<rparr>
      | PEDeck \<Rightarrow> b\<lparr>eDeck := arr_upd (eDeck b) (snd r) xs\<rparr>)"

definition pile_ref :: "PileId \<Rightarrow> u32 \<Rightarrow> DuelBoard \<Rightarrow> PileRef result" where
  "pile_ref k controller b = (if controller < 2 then Done (k, controller) b else Undefined)"

definition GetPile :: "enums \<Rightarrow> u32 \<Rightarrow> u32 \<Rightarrow> DuelBoard \<Rightarrow> PileRef result" where
  "GetPile L controller location b =
     (if location = LocationMainDeck L then pile_ref PDeck controller b
      else if location = LocationHand L then pile_ref PHand controller b
      else if location = LocationGraveyard L then pile_ref PGrave controller b
      else if location = LocationBanished L then pile_ref PRmp controller b
      else if location = LocationExtraDeck L then pile_ref PEDeck controller b
      else Threw UnknownLocation b)"

definition GetPile_place :: "enums \<Rightarrow> Place \<Rightarrow> DuelBoard \<Rightarrow> PileRef result" where
  "GetPile_place L place b = GetPile L (fst place) (fst (snd place)) b"

text \<open>\<open>v.emplace(v.begin() + i, x)\<close> and \<open>v.erase(v.begin() + i)\<close>; the callers check
  the index.\<close>

definition insert_at :: "nat \<Rightarrow> 'a \<Rightarrow> 'a list \<Rightarrow> 'a list" where
  "insert_at i x xs = take i xs @ x # drop i xs"

definition erase_at :: "nat \<Rightarrow> 'a list \<Rightarrow> 'a list" where
  "erase_at i xs = take i xs @ drop (Suc i) xs"

subsection \<open>References to cards\<close>

text \<open>A \<open>C&\<close> points into a pile (at an index) or into \<open>fieldZones\<close> (at a key).\<close>

datatype CardRef = InPile PileRef nat | InField Place

definition card_at :: "DuelBoard \<Rightarrow> CardRef \<Rightarrow> Card option" where
  "card_at b r =
     (case r of
        InPile p i \<Rightarrow> (if i < length (pile b p) then Some (pile b p ! i) else None)
      | InField place \<Rightarrow> fieldZones b place)"

definition set_card :: "DuelBoard \<Rightarrow> CardRef \<Rightarrow> Card \<Rightarrow> DuelBoard" where
  "set_card b r c =
     (case r of
        InPile p i \<Rightarrow> set_pile b p ((pile b p)[i := c])
      | InField place \<Rightarrow> b\<lparr>fieldZones := (fieldZones b)(place \<mapsto> c)\<rparr>)"

definition modify_card :: "CardRef \<Rightarrow> (Card \<Rightarrow> Card option) \<Rightarrow> DuelBoard \<Rightarrow> unit result" where
  "modify_card r f b =
     (case card_at b r of
        None \<Rightarrow> Undefined
      | Some c \<Rightarrow> (case f c of None \<Rightarrow> Undefined | Some c' \<Rightarrow> Done () (set_card b r c')))"

definition pile_card :: "PileRef \<Rightarrow> nat \<Rightarrow> DuelBoard \<Rightarrow> CardRef result" where
  "pile_card p i b = (if i < length (pile b p) then Done (InPile p i) b else Undefined)"

text \<open>\<open>fieldZones[place]\<close>: \<open>std::map::operator[]\<close> inserts a default-constructed card
  when the key is absent.\<close>

definition fieldZones_subscript :: "Place \<Rightarrow> DuelBoard \<Rightarrow> DuelBoard" where
  "fieldZones_subscript place b =
     (case fieldZones b place of
        None \<Rightarrow> b\<lparr>fieldZones := (fieldZones b)(place \<mapsto> Card_init)\<rparr>
      | Some c \<Rightarrow> b)"

definition GetCard :: "enums \<Rightarrow> Place \<Rightarrow> DuelBoard \<Rightarrow> CardRef result" where
  "GetCard L place b =
     (if IsPile L place
      then and_then (GetPile_place L place b) (\<lambda>p b. pile_card p (place_sequence place) b)
      else Done (InField place) (fieldZones_subscript place b))"

subsection \<open>Counters\<close>

definition ClearAllCounters :: "CardRef \<Rightarrow> DuelBoard \<Rightarrow> CardRef result" where
  "ClearAllCounters r b =
     and_then (modify_card r (ClearAllCounters_card (advancing b) (realtime b)) b)
       (\<lambda>_ b. Done r b)"

definition counters_assign :: "u32 \<Rightarrow> u32 Sequential \<Rightarrow> (u32 \<times> u32 Sequential) list
    \<Rightarrow> (u32 \<times> u32 Sequential) list" where
  "counters_assign k v cs = map (\<lambda>kv. if fst kv = k then (k, v) else kv) cs"

definition AddCounter_card :: "bool \<Rightarrow> Counter \<Rightarrow> Card \<Rightarrow> Card option" where
  "AddCounter_card rt counter c =
     (case map_of (counters c) (fst counter) of
        Some s \<Rightarrow>
          (case Sequential_get s of
             None \<Rightarrow> None
           | Some cur \<Rightarrow>
               map_option (\<lambda>s'. c\<lparr>counters := counters_assign (fst counter) s' (counters c)\<rparr>)
                 (AddOrNext rt (cur + snd counter) s))
      | None \<Rightarrow>
          map_option (\<lambda>s'. c\<lparr>counters := counters c @ [(fst counter, s')]\<rparr>)
            (AddOrNext rt (snd counter) (Sequential_init 0)))"

definition RemoveCounter_card :: "Counter \<Rightarrow> Card \<Rightarrow> Card option" where
  "RemoveCounter_card counter c =
     (case map_of (counters c) (fst counter) of
        Some s \<Rightarrow>
          map_option (\<lambda>s'. c\<lparr>counters := counters_assign (fst counter) s' (counters c)\<rparr>) (Prev s)
      | None \<Rightarrow>
          map_option (\<lambda>s'. c\<lparr>counters := counters c @ [(fst counter, s')]\<rparr>)
            (Prev (Sequential_init 0)))"

definition AddCounter :: "enums \<Rightarrow> Place \<Rightarrow> Counter \<Rightarrow> DuelBoard \<Rightarrow> unit result" where
  "AddCounter L place counter b =
     and_then (GetCard L place b) (\<lambda>r b. modify_card r (AddCounter_card (realtime b) counter) b)"

definition RemoveCounter :: "enums \<Rightarrow> Place \<Rightarrow> Counter \<Rightarrow> DuelBoard \<Rightarrow> unit result" where
  "RemoveCounter L place counter b =
     and_then (GetCard L place b) (\<lambda>r b. modify_card r (RemoveCounter_card counter) b)"

subsection \<open>MoveSingle\<close>

text \<open>
  The returned reference is, in all four branches, the slot named by \<open>to\<close>.
  In the pile-to-pile branch the element moved from stays in its vector (as a moved-from
  card) until \<open>erase\<close> removes the element at index \<open>from.sequence\<close>; the two differ
  when both places name the same vector.
\<close>

definition MoveSingle :: "enums \<Rightarrow> Place \<Rightarrow> Place \<Rightarrow> DuelBoard \<Rightarrow> CardRef result" where
  "MoveSingle L from to b =
     (if from = to then Threw IllegalMove b
      else if IsPile L from \<and> IsPile L to then
        and_then (GetPile_place L from b) (\<lambda>fromPile b.
        and_then (GetPile_place L to b) (\<lambda>toPile b.
          if length (pile b fromPile) \<le> place_sequence from
             \<or> length (pile b toPile) < place_sequence to
          then Undefined
          else
            let c = pile b fromPile ! place_sequence from;
                b1 = set_pile b fromPile ((pile b fromPile)[place_sequence from := Card_moved_from]);
                b2 = set_pile b1 toPile (insert_at (place_sequence to) c (pile b1 toPile));
                b3 = set_pile b2 fromPile (erase_at (place_sequence from) (pile b2 fromPile))
            in pile_card toPile (place_sequence to) b3))
      else if IsPile L from \<and> \<not> IsPile L to then
        and_then (GetPile_place L from b) (\<lambda>fromPile b.
          if length (pile b fromPile) \<le> place_sequence from then Undefined
          else
            let c = pile b fromPile ! place_sequence from;
                b1 = b\<lparr>fieldZones := (fieldZones b)(to \<mapsto> c)\<rparr>;
                b2 = set_pile b1 fromPile (erase_at (place_sequence from) (pile b1 fromPile))
            in ClearAllCounters (InField to) b2)
      else if \<not> IsPile L from \<and> IsPile L to then
        and_then (GetPile_place L to b) (\<lambda>toPile b.
          if length (pile b toPile) < place_sequence to then Undefined
          else
            let c = (case fieldZones b from of None \<Rightarrow> Card_init | Some c \<Rightarrow> c);
                b1 = set_pile b toPile (insert_at (place_sequence to) c (pile b toPile));
                b2 = b1\<lparr>fieldZones := (fieldZones b1)(from := None)\<rparr>
            in ClearAllCounters (InPile toPile (place_sequence to)) b2)
      else
        let c = (case fieldZones b from of None \<Rightarrow> Card_init | Some c \<Rightarrow> c);
            b1 = b\<lparr>fieldZones := ((fieldZones b)(to \<mapsto> c))(from := None)\<rparr>
        in Done (InField to) b1)"

section \<open>Message handlers\<close>

text \<open>Loops \<open>for (int i = 0; i < n; i++)\<close> run their body over \<open>[0..<n]\<close>; a body that
  is undefined ends the loop. \<open>list_step i f xs\<close> is \<open>f(xs[i])\<close> on a vector.\<close>

primrec for_range :: "(nat \<Rightarrow> 's \<Rightarrow> 's option) \<Rightarrow> nat list \<Rightarrow> 's \<Rightarrow> 's option" where
  "for_range f [] s = Some s"
| "for_range f (i # is) s = (case f i s of None \<Rightarrow> None | Some s' \<Rightarrow> for_range f is s')"

definition list_step :: "nat \<Rightarrow> ('a \<Rightarrow> 'a option) \<Rightarrow> 'a list \<Rightarrow> 'a list option" where
  "list_step i f xs = (if length xs \<le> i then None else map_option (\<lambda>x. xs[i := x]) (f (xs ! i)))"

text \<open>\<open>tempCards.emplace(t, card)\<close> keeps the old entry when the key is taken;
  \<open>tempCards[t]\<close> reads a default-constructed card when the key is absent.\<close>

definition tempCards_emplace :: "TempPlace \<Rightarrow> Card \<Rightarrow> DuelBoard \<Rightarrow> DuelBoard" where
  "tempCards_emplace t c b =
     (case tempCards b t of None \<Rightarrow> b\<lparr>tempCards := (tempCards b)(t \<mapsto> c)\<rparr> | Some c' \<Rightarrow> b)"

definition tempCards_take :: "TempPlace \<Rightarrow> DuelBoard \<Rightarrow> Card" where
  "tempCards_take t b = (case tempCards b t of None \<Rightarrow> Card_init | Some c \<Rightarrow> c)"

definition fieldZones_read :: "Place \<Rightarrow> DuelBoard \<Rightarrow> Card" where
  "fieldZones_read place b = (case fieldZones b place of None \<Rightarrow> Card_init | Some c \<Rightarrow> c)"

definition fieldZones_emplace :: "Place \<Rightarrow> Card \<Rightarrow> DuelBoard \<Rightarrow> DuelBoard" where
  "fieldZones_emplace place c b =
     (case fieldZones b place of None \<Rightarrow> b\<lparr>fieldZones := (fieldZones b)(place \<mapsto> c)\<rparr> | Some c' \<Rightarrow> b)"

text \<open>\<open>*(pile.rbegin() - n)\<close>: subtracting from a reverse iterator moves it towards the
  end of the vector, so only \<open>n = 0\<close> on a non-empty pile names an element (the last).\<close>

definition deck_top_card :: "PileRef \<Rightarrow> u32 \<Rightarrow> DuelBoard \<Rightarrow> CardRef result" where
  "deck_top_card p n b =
     (if n = 0 \<and> pile b p \<noteq> [] then Done (InPile p (length (pile b p) - 1)) b else Undefined)"

definition code_pos_AddOrNext :: "CardRef \<Rightarrow> u32 \<Rightarrow> u32 \<Rightarrow> DuelBoard \<Rightarrow> unit result" where
  "code_pos_AddOrNext r cd ps b =
     and_then (modify_card r (code_step (AddOrNext (realtime b) cd)) b)
       (\<lambda>_ b. modify_card r (pos_step (AddOrNext (realtime b) ps)) b)"

definition code_pos_Prev :: "CardRef \<Rightarrow> DuelBoard \<Rightarrow> unit result" where
  "code_pos_Prev r b =
     and_then (modify_card r (code_step Prev) b) (\<lambda>_ b. modify_card r (pos_step Prev) b)"

definition HandleUpdateCard :: "enums \<Rightarrow> Reason \<Rightarrow> CardInfo \<Rightarrow> CardInfo \<Rightarrow> DuelBoard \<Rightarrow> unit result" where
  "HandleUpdateCard L reason previousInfo currentInfo b =
     (if advancing b then
        (if reason = REASON_DECK_TOP then
           and_then (GetPile_place L (PlaceFromCardInfo L previousInfo) b) (\<lambda>p b.
           and_then (deck_top_card p (ci_sequence previousInfo) b) (\<lambda>r b.
             modify_card r (code_step (AddOrNext (realtime b) (ci_code currentInfo))) b))
         else if reason = REASON_MOVE then
           and_then (MoveSingle L (PlaceFromCardInfo L previousInfo)
                       (PlaceFromCardInfo L currentInfo) b) (\<lambda>r b.
             code_pos_AddOrNext r (ci_code currentInfo) (ci_position currentInfo) b)
         else
           and_then (GetCard L (PlaceFromCardInfo L previousInfo) b) (\<lambda>r b.
             code_pos_AddOrNext r (ci_code currentInfo) (ci_position currentInfo) b))
      else
        (if reason = REASON_DECK_TOP then
           and_then (GetPile_place L (PlaceFromCardInfo L previousInfo) b) (\<lambda>p b.
           and_then (deck_top_card p (ci_sequence previousInfo) b) (\<lambda>r b.
             modify_card r (code_step Prev) b))
         else if reason = REASON_MOVE then
           and_then (GetCard L (PlaceFromCardInfo L currentInfo) b) (\<lambda>r b.
           and_then (code_pos_Prev r b) (\<lambda>_ b.
           and_then (MoveSingle L (PlaceFromCardInfo L currentInfo)
                       (PlaceFromCardInfo L previousInfo) b) (\<lambda>_ b. Done () b)))
         else
           and_then (GetCard L (PlaceFromCardInfo L previousInfo) b) (\<lambda>r b.
             code_pos_Prev r b)))"

definition HandleAddCard :: "enums \<Rightarrow> CardInfo \<Rightarrow> DuelBoard \<Rightarrow> unit result" where
  "HandleAddCard L cardInfo b =
     (let place = PlaceFromCardInfo L cardInfo; i = place_sequence place in
      if advancing b then
        (if realtime b \<and> IsPile L place then
           and_then (GetPile_place L place b) (\<lambda>p b.
             if length (pile b p) < i then Undefined
             else code_pos_AddOrNext (InPile p i) (ci_code cardInfo) (ci_position cardInfo)
                    (set_pile b p (insert_at i Card_init (pile b p))))
         else if realtime b \<and> \<not> IsPile L place then
           code_pos_AddOrNext (InField place) (ci_code cardInfo) (ci_position cardInfo)
             (fieldZones_emplace place Card_init b)
         else if \<not> realtime b \<and> IsPile L place then
           and_then (GetPile_place L place b) (\<lambda>p b.
             if length (pile b p) < i then Undefined
             else
               let t = (state b, place);
                   b1 = set_pile b p (insert_at i (tempCards_take t b) (pile b p));
                   b2 = b1\<lparr>tempCards := (tempCards b1)(t := None)\<rparr>
               in code_pos_AddOrNext (InPile p i) (ci_code cardInfo) (ci_position cardInfo) b2)
         else
           (let t = (state b, place);
                b1 = fieldZones_emplace place (tempCards_take t b) b;
                b2 = b1\<lparr>tempCards := (tempCards b1)(t := None)\<rparr>
            in code_pos_AddOrNext (InField place) (ci_code cardInfo) (ci_position cardInfo) b2))
      else
        (if IsPile L place then
           and_then (GetPile_place L place b) (\<lambda>p b.
           and_then (pile_card p i b) (\<lambda>r b.
           and_then (code_pos_Prev r b) (\<lambda>_ b.
             let b1 = tempCards_emplace (state b, place) (pile b p ! i) b
             in Done () (set_pile b1 p (erase_at i (pile b1 p))))))
         else
           and_then (code_pos_Prev (InField place) (fieldZones_subscript place b)) (\<lambda>_ b.
             let b1 = tempCards_emplace (state b, place) (fieldZones_read place b) b
             in Done () (b1\<lparr>fieldZones := (fieldZones b1)(place := None)\<rparr>))))"

definition HandleRemoveCard :: "enums \<Rightarrow> CardInfo \<Rightarrow> DuelBoard \<Rightarrow> unit result" where
  "HandleRemoveCard L cardInfo b =
     (let place = PlaceFromCardInfo L cardInfo; i = place_sequence place in
      if advancing b then
        (if IsPile L place then
           and_then (GetPile_place L place b) (\<lambda>p b.
             if length (pile b p) \<le> i then Undefined
             else
               let b1 = tempCards_emplace (state b, place) (pile b p ! i) b
               in Done () (set_pile b1 p (erase_at i (pile b1 p))))
         else
           (let b1 = tempCards_emplace (state b, place) (fieldZones_read place b) b
            in Done () (b1\<lparr>fieldZones := (fieldZones b1)(place := None)\<rparr>)))
      else
        (if IsPile L place then
           and_then (GetPile_place L place b) (\<lambda>p b.
             if length (pile b p) < i then Undefined
             else
               let t = (state b, place);
                   b1 = set_pile b p (insert_at i (tempCards_take t b) (pile b p))
               in Done () (b1\<lparr>tempCards := (tempCards b1)(t := None)\<rparr>))
         else
           (let t = (state b, place);
                b1 = fieldZones_emplace place (tempCards_take t b) b
            in Done () (b1\<lparr>tempCards := (tempCards b1)(t := None)\<rparr>))))"

text \<open>\<open>std::move(v.rbegin(), v.rbegin() + n, std::back_inserter(w))\<close> appends the last
  \<open>n\<close> elements of \<open>v\<close> to \<open>w\<close>, the last one first; \<open>v.resize(v.size() - n)\<close> then drops
  them. Both need \<open>n \<le> v.size()\<close>.\<close>

definition HandleDraw :: "u32 \<Rightarrow> CardInfo list \<Rightarrow> DuelBoard \<Rightarrow> unit result" where
  "HandleDraw player cards b =
     (if 2 \<le> player then Undefined
      else
        let handSz = length (arr_at (hand b) player);
            d = arr_at (deck b) player;
            h = arr_at (hand b) player;
            n = length cards
        in
        if advancing b then
          (if length d < n then Undefined
           else
             (case for_range (\<lambda>i. list_step (handSz + i)
                       (code_step (AddOrNext (realtime b) (ci_code (cards ! i)))))
                     [0..<n] (h @ take n (rev d)) of
                None \<Rightarrow> Undefined
              | Some h' \<Rightarrow>
                  Done () (b\<lparr>deck := arr_upd (deck b) player (take (length d - n) d),
                              hand := arr_upd (hand b) player h'\<rparr>)))
        else
          (case for_range (\<lambda>i xs. if handSz < Suc i then None
                                   else list_step (handSz - i - 1) (code_step Prev) xs)
                  [0..<n] h of
             None \<Rightarrow> Undefined
           | Some h' \<Rightarrow>
               if length h' < n then Undefined
               else Done () (b\<lparr>deck := arr_upd (deck b) player (d @ take n (rev h')),
                                hand := arr_upd (hand b) player (take (length h' - n) h')\<rparr>)))"

text \<open>The first block of \<open>HandleSwapCards\<close>: \<open>tmp\<close> is moved out of the slot of card 1,
  and the slot is erased.\<close>

definition SwapCards_take :: "enums \<Rightarrow> Place \<Rightarrow> DuelBoard \<Rightarrow> Card result" where
  "SwapCards_take L card1Place b =
     (if IsPile L card1Place then
        and_then (GetPile_place L card1Place b) (\<lambda>p b.
          if length (pile b p) \<le> place_sequence card1Place then Undefined
          else Done (pile b p ! place_sequence card1Place)
                 (set_pile b p (erase_at (place_sequence card1Place) (pile b p))))
      else
        Done (fieldZones_read card1Place b)
          (b\<lparr>fieldZones := (fieldZones b)(card1Place := None)\<rparr>))"

definition HandleSwapCards :: "enums \<Rightarrow> CardInfo \<Rightarrow> CardInfo \<Rightarrow> DuelBoard \<Rightarrow> unit result" where
  "HandleSwapCards L card1Info card2Info b =
     (let card1Place = PlaceFromCardInfo L card1Info;
          card2Place = PlaceFromCardInfo L card2Info
      in
      and_then (SwapCards_take L card1Place b) (\<lambda>tmp b.
      and_then (MoveSingle L card2Place card1Place b) (\<lambda>_ b.
        if IsPile L card2Place then
          and_then (GetPile_place L card2Place b) (\<lambda>p b.
            if length (pile b p) < place_sequence card2Place then Undefined
            else Done () (set_pile b p (insert_at (place_sequence card2Place) tmp (pile b p))))
        else Done () (b\<lparr>fieldZones := (fieldZones b)(card2Place \<mapsto> tmp)\<rparr>))))"

fun shuffle_codes :: "bool \<Rightarrow> CardInfo list \<Rightarrow> nat \<Rightarrow> Card list \<Rightarrow> Card list option" where
  "shuffle_codes rt shuffledCards i [] = Some []"
| "shuffle_codes rt shuffledCards i (c # cs) =
     (if shuffledCards \<noteq> [] then
        (if length shuffledCards \<le> i then None
         else
           (case code_step (AddOrNext rt (ci_code (shuffledCards ! i))) c of
              None \<Rightarrow> None
            | Some c' \<Rightarrow> map_option ((#) c') (shuffle_codes rt shuffledCards (Suc i) cs)))
      else
        (case code_step (AddOrNext rt 0) c of
           None \<Rightarrow> None
         | Some c' \<Rightarrow> map_option ((#) c') (shuffle_codes rt shuffledCards i cs)))"

definition HandleShuffleLocation :: "enums \<Rightarrow> u32 \<Rightarrow> u32 \<Rightarrow> CardInfo list \<Rightarrow> DuelBoard \<Rightarrow> unit result" where
  "HandleShuffleLocation L player location shuffledCards b =
     and_then (GetPile L player location b) (\<lambda>p b.
       if advancing b then
         and_then (defined (shuffle_codes (realtime b) shuffledCards 0 (pile b p)) b)
           (\<lambda>cs b. Done () (set_pile b p cs))
       else
         and_then (defined (for_each (code_step Prev) (pile b p)) b)
           (\<lambda>cs b. Done () (set_pile b p cs)))"

definition field_step :: "Place \<Rightarrow> (Card \<Rightarrow> Card option) \<Rightarrow> DuelBoard \<Rightarrow> DuelBoard option" where
  "field_step place f b =
     map_option (\<lambda>c. b\<lparr>fieldZones := (fieldZones b)(place \<mapsto> c)\<rparr>) (f (fieldZones_read place b))"

definition HandleShuffleSetCards :: "enums \<Rightarrow> CardInfo list \<Rightarrow> CardInfo list \<Rightarrow> DuelBoard \<Rightarrow> unit result" where
  "HandleShuffleSetCards L cardsPrevious cardsCurrent b =
     (if advancing b then
        and_then
          (defined
             (for_range
                (\<lambda>i b.
                   let place = PlaceFromCardInfo L (cardsPrevious ! i) in
                   if cardsCurrent \<noteq> [] then
                     (if length cardsCurrent \<le> i then None
                      else
                        (case field_step place
                                (code_step (AddOrNext (realtime b) (ci_code (cardsCurrent ! i)))) b of
                           None \<Rightarrow> None
                         | Some b1 \<Rightarrow>
                             field_step place
                               (pos_step (AddOrNext (realtime b) (ci_position (cardsCurrent ! i)))) b1))
                   else
                     (case field_step place (code_step (AddOrNext (realtime b) 0)) b of
                        None \<Rightarrow> None
                      | Some b1 \<Rightarrow>
                          field_step place
                            (pos_step (AddOrNext (realtime b) (ci_position (cardsPrevious ! i)))) b1))
                [0..<length cardsPrevious] b) b)
          (\<lambda>b' _. Done () b')
      else
        and_then
          (defined
             (for_range
                (\<lambda>i b.
                   let place = PlaceFromCardInfo L (cardsPrevious ! i) in
                   (case field_step place (code_step Prev) b of
                      None \<Rightarrow> None
                    | Some b1 \<Rightarrow> field_step place (pos_step Prev) b1))
                [0..<length cardsPrevious] b) b)
          (\<lambda>b' _. Done () b'))"

definition HandleCounterChange :: "enums \<Rightarrow> CounterChangeType \<Rightarrow> PbPlace \<Rightarrow> PbCounter \<Rightarrow> DuelBoard \<Rightarrow> unit result" where
  "HandleCounterChange L ty pl cn b =
     (let counter = CounterFromProtobufCounter cn; place = PlaceFromProtobufPlace pl in
      if advancing b then
        (if ty = CHANGE_ADD then AddCounter L place counter b
         else RemoveCounter L place counter b)
      else
        (if ty = CHANGE_ADD then RemoveCounter L place counter b
         else AddCounter L place counter b))"

definition zones_sync :: "(Place \<times> bool Sequential) list \<Rightarrow> (Place \<times> bool Sequential) list option" where
  "zones_sync zs = for_each (entry_step (AddOrNext False False)) zs"

definition zones_append :: "Place list \<Rightarrow> (Place \<times> bool Sequential) list \<Rightarrow> (Place \<times> bool Sequential) list option" where
  "zones_append tmpSet zs = for_each (\<lambda>zone. entry_step (AddOrNext True (fst zone \<in> set tmpSet)) zone) zs"

definition HandleDisableZones :: "PbPlace list \<Rightarrow> DuelBoard \<Rightarrow> unit result" where
  "HandleDisableZones places b =
     (if advancing b then
        and_then
          (if \<not> realtime b
           then and_then (defined (zones_sync (disabledZones b)) b)
                  (\<lambda>zs b. Done () (b\<lparr>disabledZones := zs\<rparr>))
           else Done () b)
          (\<lambda>_ b.
             and_then (defined (zones_append (map PlaceFromProtobufPlace places) (disabledZones b)) b)
               (\<lambda>zs b. Done () (b\<lparr>disabledZones := zs\<rparr>)))
      else
        and_then (defined (for_each (entry_step Prev) (disabledZones b)) b)
          (\<lambda>zs b. Done () (b\<lparr>disabledZones := zs\<rparr>)))"

text \<open>\<open>int32_t deltaAmount = (int32_t)playerLP[player]() - amount\<close>: the difference is
  taken on 32 bits and read as a signed number.\<close>

definition HandleLpChange :: "u32 \<Rightarrow> LpChangeType \<Rightarrow> u32 \<Rightarrow> DuelBoard \<Rightarrow> unit result" where
  "HandleLpChange player ty amount b =
     (if 2 \<le> player then Undefined
      else
        let lp = arr_at (playerLP b) player in
        and_then
          (defined
             (if advancing b then
                (if ty = CHANGE_DAMAGE \<or> ty = CHANGE_PAY then
                   (case Sequential_get lp of
                      None \<Rightarrow> None
                    | Some cur \<Rightarrow>
                        let deltaAmount = cur - amount in
                        if sint deltaAmount < 0 then AddOrNext (realtime b) 0 lp
                        else AddOrNext (realtime b) deltaAmount lp)
                 else if ty = CHANGE_RECOVER then
                   (case Sequential_get lp of
                      None \<Rightarrow> None
                    | Some cur \<Rightarrow> AddOrNext (realtime b) (cur + amount) lp)
                 else AddOrNext (realtime b) amount lp)
              else Prev lp) b)
          (\<lambda>lp' b. Done () (b\<lparr>playerLP := arr_upd (playerLP b) player lp'\<rparr>)))"

definition HandleNewTurn :: "u32 \<Rightarrow> DuelBoard \<Rightarrow> unit result" where
  "HandleNewTurn turn_player b =
     (if advancing b then
        and_then (defined (AddOrNext (realtime b) turn_player (turnPlayer b)) (b\<lparr>turn := turn b + 1\<rparr>))
          (\<lambda>s b. Done () (b\<lparr>turnPlayer := s\<rparr>))
      else
        and_then (defined (Prev (turnPlayer b)) b)
          (\<lambda>s b. Done () (b\<lparr>turnPlayer := s, turn := turn b - 1\<rparr>)))"

definition HandleNewPhase :: "u32 \<Rightarrow> DuelBoard \<Rightarrow> unit result" where
  "HandleNewPhase ph b =
     and_then
       (defined (if advancing b then AddOrNext (realtime b) ph (phase b) else Prev (phase b)) b)
       (\<lambda>s b. Done () (b\<lparr>phase := s\<rparr>))"

fun InterpretMsg :: "enums \<Rightarrow> AnyMsg \<Rightarrow> DuelBoard \<Rightarrow> unit result" where
  "InterpretMsg L OtherMsg b = Done () b"
| "InterpretMsg L (InformationMsg (UpdateCard reason previousInfo currentInfo)) b =
     HandleUpdateCard L reason previousInfo currentInfo b"
| "InterpretMsg L (InformationMsg (AddCard cardInfo)) b = HandleAddCard L cardInfo b"
| "InterpretMsg L (InformationMsg (RemoveCard cardInfo)) b = HandleRemoveCard L cardInfo b"
| "InterpretMsg L (InformationMsg (Draw player cards)) b = HandleDraw player cards b"
| "InterpretMsg L (InformationMsg (SwapCards card1Info card2Info)) b =
     HandleSwapCards L card1Info card2Info b"
| "InterpretMsg L (InformationMsg (ShuffleLocation player location shuffledCards)) b =
     HandleShuffleLocation L player location shuffledCards b"
| "InterpretMsg L (InformationMsg (ShuffleSetCards cardsPrevious cardsCurrent)) b =
     HandleShuffleSetCards L cardsPrevious cardsCurrent b"
| "InterpretMsg L (InformationMsg (CounterChange ty pl cn)) b = HandleCounterChange L ty pl cn b"
| "InterpretMsg L (InformationMsg (DisableZones places)) b = HandleDisableZones places b"
| "InterpretMsg L (InformationMsg (LpChange player ty amount)) b = HandleLpChange player ty amount b"
| "InterpretMsg L (InformationMsg (NewTurn turn_player)) b = HandleNewTurn turn_player b"
| "InterpretMsg L (InformationMsg (NewPhase ph)) b = HandleNewPhase ph b"
| "InterpretMsg L (InformationMsg other) b = Done () b"

section \<open>The cursor: \<open>AppendMsg\<close>, \<open>Forward\<close>, \<open>Backward\<close>\<close>

definition GetTotalStates :: "DuelBoard \<Rightarrow> u32" where
  "GetTotalStates b = word_of_nat (length (msgs b))"

definition GetProcessedStates :: "DuelBoard \<Rightarrow> u32" where
  "GetProcessedStates b = processedState b"

definition GetCurrentState :: "DuelBoard \<Rightarrow> u32" where
  "GetCurrentState b = state b"

definition IsRealtime :: "DuelBoard \<Rightarrow> bool" where
  "IsRealtime b = (state b = processedState b)"

definition AppendMsg :: "AnyMsg \<Rightarrow> DuelBoard \<Rightarrow> DuelBoard" where
  "AppendMsg msg b = b\<lparr>msgs := msgs b @ [msg]\<rparr>"

definition Forward :: "enums \<Rightarrow> DuelBoard \<Rightarrow> unit result" where
  "Forward L b =
     (if length (msgs b) = 0 \<or> length (msgs b) - 1 < unat (state b) then Done () b
      else
        let b1 = b\<lparr>realtime := IsRealtime b\<rparr>;
            b2 = (if realtime b1 then b1\<lparr>processedState := processedState b1 + 1\<rparr> else b1);
            b3 = b2\<lparr>advancing := True\<rparr>
        in and_then (InterpretMsg L (msgs b3 ! unat (state b3)) b3)
             (\<lambda>_ b. Done () (b\<lparr>state := state b + 1\<rparr>)))"

definition Backward :: "enums \<Rightarrow> DuelBoard \<Rightarrow> unit result" where
  "Backward L b =
     (if state b = 0 then Done () b
      else
        let b1 = b\<lparr>realtime := False, advancing := False, state := state b - 1\<rparr>
        in if length (msgs b1) \<le> unat (state b1) then Undefined
           else InterpretMsg L (msgs b1 ! unat (state b1)) b1)"

subsection \<open>Seeding\<close>

text \<open>\<open>pile.resize(num)\<close> with \<open>int num\<close>: a negative \<open>num\<close> converts to a size beyond
  \<open>max_size()\<close> and \<open>resize\<close> throws \<open>std::length_error\<close>.\<close>

definition resize :: "nat \<Rightarrow> Card list \<Rightarrow> Card list" where
  "resize n xs = take n xs @ replicate (n - length xs) Card_init"

definition FillPile :: "enums \<Rightarrow> u32 \<Rightarrow> u32 \<Rightarrow> int \<Rightarrow> DuelBoard \<Rightarrow> unit result" where
  "FillPile L controller location num b =
     and_then (GetPile L controller location b) (\<lambda>p b.
       if num < 0 then Threw LengthError b
       else
         and_then
           (defined (for_each (pos_step (AddOrNext True (PositionFaceDown L)))
                       (resize (nat num) (pile b p))) b)
           (\<lambda>cs b. Done () (set_pile b p cs)))"

definition SetLP :: "u32 \<Rightarrow> u32 \<Rightarrow> DuelBoard \<Rightarrow> unit result" where
  "SetLP controller lp b =
     (if 2 \<le> controller then Undefined
      else
        and_then (defined (AddOrNext True lp (arr_at (playerLP b) controller)) b)
          (\<lambda>s b. Done () (b\<lparr>playerLP := arr_upd (playerLP b) controller s\<rparr>)))"

subsection \<open>Construction\<close>

text \<open>
  The initialiser of \<open>disabledZones\<close>: \<open>for (int con = 0; con < 1; con++)\<close>, then the three
  locations, then the \<open>do \<dots> while (true)\<close> over \<open>seq\<close> with its three \<open>break\<close>s.
  \<open>seq++\<close> on \<open>INT_MAX\<close> would be undefined (\<open>None\<close>); the loop never gets there.
\<close>

definition zones_emplace :: "Place \<Rightarrow> (Place \<times> bool Sequential) list \<Rightarrow> (Place \<times> bool Sequential) list" where
  "zones_emplace k tempMap =
     (if k \<in> fst ` set tempMap then tempMap else tempMap @ [(k, Sequential_init False)])"

function zone_loop :: "enums \<Rightarrow> u32 \<Rightarrow> u32 \<Rightarrow> int \<Rightarrow> (Place \<times> bool Sequential) list
    \<Rightarrow> (Place \<times> bool Sequential) list option" where
  "zone_loop L con loc seq tempMap =
     (if 2147483647 \<le> seq then None
      else if loc = LocationMonsterZone L \<and> 6 < seq + 1
        then Some (zones_emplace (con, loc, word_of_int seq, - 1) tempMap)
      else if loc = LocationSpellZone L \<and> 5 < seq + 1
        then Some (zones_emplace (con, loc, word_of_int seq, - 1) tempMap)
      else if loc = LocationPendulumZone L \<and> 1 < seq + 1
        then Some (zones_emplace (con, loc, word_of_int seq, - 1) tempMap)
      else zone_loop L con loc (seq + 1) (zones_emplace (con, loc, word_of_int seq, - 1) tempMap))"
  by pat_completeness auto
termination
  by (relation "measure (\<lambda>(L, con, loc, seq, tempMap). nat (2147483647 - seq))") auto

declare zone_loop.simps [simp del]

primrec zones_locations :: "enums \<Rightarrow> u32 \<Rightarrow> u32 list \<Rightarrow> (Place \<times> bool Sequential) list
    \<Rightarrow> (Place \<times> bool Sequential) list option" where
  "zones_locations L con [] tempMap = Some tempMap"
| "zones_locations L con (loc # locations) tempMap =
     (case zone_loop L con loc 0 tempMap of
        None \<Rightarrow> None
      | Some m \<Rightarrow> zones_locations L con locations m)"

primrec zones_controllers :: "enums \<Rightarrow> nat list \<Rightarrow> (Place \<times> bool Sequential) list
    \<Rightarrow> (Place \<times> bool Sequential) list option" where
  "zones_controllers L [] tempMap = Some tempMap"
| "zones_controllers L (con # cons) tempMap =
     (case zones_locations L (word_of_nat con)
             [LocationMonsterZone L, LocationSpellZone L, LocationPendulumZone L] tempMap of
        None \<Rightarrow> None
      | Some m \<Rightarrow> zones_controllers L cons m)"

definition disabledZones_init :: "enums \<Rightarrow> (Place \<times> bool Sequential) list option" where
  "disabledZones_init L = zones_controllers L [0..<1] []"

definition DuelBoard_init :: "enums \<Rightarrow> DuelBoard option" where
  "DuelBoard_init L =
     map_option
       (\<lambda>zs. \<lparr>turn = 0, playerLP = (Sequential_init 0, Sequential_init 0),
              turnPlayer = Sequential_init 0, phase = Sequential_init 0,
              deck = ([], []), hand = ([], []), grave = ([], []), rmp = ([], []),
              eDeck = ([], []), fieldZones = Map.empty, disabledZones = zs,
              realtime = False, advancing = False, state = 0, processedState = 0,
              msgs = [], tempCards = Map.empty\<rparr>)
       (disabledZones_init L)"

section \<open>Auxiliary definitions for the statements\<close>

text \<open>The board as \<open>Forward\<close> and \<open>Backward\<close> hand it to \<open>InterpretMsg\<close>.\<close>

definition forward_entry :: "DuelBoard \<Rightarrow> DuelBoard" where
  "forward_entry b =
     b\<lparr>realtime := (state b = processedState b),
       processedState := (if state b = processedState b then processedState b + 1
                          else processedState b),
       advancing := True\<rparr>"

definition backward_entry :: "DuelBoard \<Rightarrow> DuelBoard" where
  "backward_entry b = b\<lparr>realtime := False, advancing := False, state := state b - 1\<rparr>"

text \<open>An instance of the enumerators for the worked examples: the simulator's location
  bits (deck 1, hand 2, monster zone 4, spell zone 8, graveyard 16, banished 32, extra deck
  64, overlay 128, field zone 256, pendulum zone 512; on-field is monster or spell zone) and
  face-down position 10.\<close>

definition example_enums :: enums where
  "example_enums =
     \<lparr>LocationMainDeck = 1, LocationHand = 2, LocationGraveyard = 16, LocationBanished = 32,
      LocationExtraDeck = 64, LocationMonsterZone = 4, LocationSpellZone = 8,
      LocationOverlay = 128, LocationOnField = 12, LocationFieldZone = 256,
      LocationPendulumZone = 512, PositionFaceDown = 10\<rparr>"

text \<open>The cells of the fifteen constructed zones, all at cursor \<open>i\<close>: monster zone 2 of
  controller 0 with history \<open>on\<close>, the others with history \<open>off\<close>; and a message that
  disables that one zone.\<close>

definition example_zones :: "bool list \<Rightarrow> nat \<Rightarrow> bool list \<Rightarrow> (Place \<times> bool Sequential) list" where
  "example_zones off i on =
     [((0, 4, 0, - 1), \<lparr>seq_l = off, seq_it = i\<rparr>), ((0, 4, 1, - 1), \<lparr>seq_l = off, seq_it = i\<rparr>),
      ((0, 4, 2, - 1), \<lparr>seq_l = on, seq_it = i\<rparr>), ((0, 4, 3, - 1), \<lparr>seq_l = off, seq_it = i\<rparr>),
      ((0, 4, 4, - 1), \<lparr>seq_l = off, seq_it = i\<rparr>), ((0, 4, 5, - 1), \<lparr>seq_l = off, seq_it = i\<rparr>),
      ((0, 4, 6, - 1), \<lparr>seq_l = off, seq_it = i\<rparr>), ((0, 8, 0, - 1), \<lparr>seq_l = off, seq_it = i\<rparr>),
      ((0, 8, 1, - 1), \<lparr>seq_l = off, seq_it = i\<rparr>), ((0, 8, 2, - 1), \<lparr>seq_l = off, seq_it = i\<rparr>),
      ((0, 8, 3, - 1), \<lparr>seq_l = off, seq_it = i\<rparr>), ((0, 8, 4, - 1), \<lparr>seq_l = off, seq_it = i\<rparr>),
      ((0, 8, 5, - 1), \<lparr>seq_l = off, seq_it = i\<rparr>), ((0, 512, 0, - 1), \<lparr>seq_l = off, seq_it = i\<rparr>),
      ((0, 512, 1, - 1), \<lparr>seq_l = off, seq_it = i\<rparr>)]"

definition example_DisableZones :: AnyMsg where
  "example_DisableZones =
     InformationMsg (DisableZones [\<lparr>pl_controller = 0, pl_location = 4, pl_sequence = 2\<rparr>])"

text \<open>What no handler touches: the cursor, the log, the two direction flags, and the keys
  of \<open>disabledZones\<close>.\<close>

definition cursor_of :: "DuelBoard \<Rightarrow> u32 \<times> u32 \<times> AnyMsg list \<times> bool \<times> bool \<times> Place list" where
  "cursor_of b =
     (state b, processedState b, msgs b, realtime b, advancing b, map fst (disabledZones b))"

text \<open>The cursor invariant of the specification (P3, and the bound of section 3.5).\<close>

definition cursor_inv :: "DuelBoard \<Rightarrow> bool" where
  "cursor_inv b \<longleftrightarrow>
     unat (state b) \<le> length (msgs b) \<and> state b \<le> processedState b \<and>
     unat (processedState b) \<le> length (msgs b)"

text \<open>The boards an application can get to: construction, seeding, appending and stepping.
  A step that throws leaves the board as it was at the \<open>throw\<close>.\<close>

inductive reachable :: "enums \<Rightarrow> DuelBoard \<Rightarrow> bool" for L :: enums where
  init: "DuelBoard_init L = Some b \<Longrightarrow> reachable L b"
| append: "reachable L b \<Longrightarrow> reachable L (AppendMsg msg b)"
| forward: "reachable L b \<Longrightarrow> Forward L b = Done () b' \<Longrightarrow> reachable L b'"
| forward_threw: "reachable L b \<Longrightarrow> Forward L b = Threw e b' \<Longrightarrow> reachable L b'"
| backward: "reachable L b \<Longrightarrow> Backward L b = Done () b' \<Longrightarrow> reachable L b'"
| backward_threw: "reachable L b \<Longrightarrow> Backward L b = Threw e b' \<Longrightarrow> reachable L b'"
| fill_pile: "reachable L b \<Longrightarrow> FillPile L controller location num b = Done () b' \<Longrightarrow> reachable L b'"
| fill_pile_threw: "reachable L b \<Longrightarrow> FillPile L controller location num b = Threw e b' \<Longrightarrow> reachable L b'"
| set_lp: "reachable L b \<Longrightarrow> SetLP controller lp b = Done () b' \<Longrightarrow> reachable L b'"

text \<open>The card-info of the card at index 0 of the hand of player 0.\<close>

definition example_hand_card :: CardInfo where
  "example_hand_card =
     \<lparr>ci_controller = 0, ci_location = 2, ci_sequence = 0, ci_overlay_sequence = 0,
      ci_code = 0, ci_position = 0\<rparr>"

text \<open>A card whose code cell has been stepped forward over the value \<open>cd\<close> (appended
  when \<open>rt\<close>, the cursor advanced), and the same card with the cursor back where it was.\<close>

definition drawn :: "bool \<Rightarrow> u32 \<Rightarrow> Card \<Rightarrow> Card" where
  "drawn rt cd c =
     c\<lparr>code := \<lparr>seq_l = (if rt then seq_l (code c) @ [cd] else seq_l (code c)),
                 seq_it = Suc (seq_it (code c))\<rparr>\<rparr>"

definition undrawn :: "bool \<Rightarrow> u32 \<Rightarrow> Card \<Rightarrow> Card" where
  "undrawn rt cd c =
     c\<lparr>code := \<lparr>seq_l = (if rt then seq_l (code c) @ [cd] else seq_l (code c)),
                 seq_it = seq_it (code c)\<rparr>\<rparr>"

text \<open>The message of the draw scenario: player 0 draws two cards, revealed as 1234 and
  5678.\<close>

definition example_Draw :: AnyMsg where
  "example_Draw =
     InformationMsg (Draw 0
       [\<lparr>ci_controller = 0, ci_location = 1, ci_sequence = 0, ci_overlay_sequence = 0,
          ci_code = 1234, ci_position = 0\<rparr>,
        \<lparr>ci_controller = 0, ci_location = 1, ci_sequence = 0, ci_overlay_sequence = 0,
          ci_code = 5678, ci_position = 0\<rparr>])"

section \<open>Auxiliary definitions for the round trip\<close>

text \<open>A cell \<open>t\<close> extends a cell \<open>s\<close>: the cursor is at the same position and the history
  of \<open>s\<close> is an initial segment of the history of \<open>t\<close>. Where \<open>s\<close> can be read, \<open>t\<close> reads
  the same value; \<open>t\<close> may keep more values beyond the cursor.\<close>

definition cell_le :: "'a Sequential \<Rightarrow> 'a Sequential \<Rightarrow> bool" where
  "cell_le s t \<longleftrightarrow>
     seq_it s = seq_it t \<and> length (seq_l s) \<le> length (seq_l t) \<and>
     take (length (seq_l s)) (seq_l t) = seq_l s"

text \<open>The same for a map of cells (the counters of a card, the disabled zones): the same
  keys in the same order, each cell extended.\<close>

definition entries_le :: "('k \<times> 'a Sequential) list \<Rightarrow> ('k \<times> 'a Sequential) list \<Rightarrow> bool" where
  "entries_le xs ys \<longleftrightarrow> list_all2 (\<lambda>x y. fst x = fst y \<and> cell_le (snd x) (snd y)) xs ys"

text \<open>A card extends a card when each of its cells does; a pile extends a pile when it
  has the same number of cards and each card extends the one at its index.\<close>

definition card_le :: "Card \<Rightarrow> Card \<Rightarrow> bool" where
  "card_le c d \<longleftrightarrow>
     cell_le (pos c) (pos d) \<and> cell_le (code c) (code d) \<and>
     cell_le (aliasCode c) (aliasCode d) \<and> cell_le (type c) (type d) \<and>
     cell_le (level c) (level d) \<and> cell_le (rank c) (rank d) \<and>
     cell_le (attr c) (attr d) \<and> cell_le (race c) (race d) \<and>
     cell_le (atk c) (atk d) \<and> cell_le (def c) (def d) \<and>
     cell_le (bAtk c) (bAtk d) \<and> cell_le (bDef c) (bDef d) \<and>
     cell_le (owner c) (owner d) \<and> cell_le (lscale c) (lscale d) \<and>
     cell_le (rscale c) (rscale d) \<and> cell_le (links c) (links d) \<and>
     entries_le (counters c) (counters d)"








section \<open>Basic facts\<close>

lemma and_then_simps [simp]:
  "and_then (Done x b) f = f x b"
  "and_then (Threw e b) f = Threw e b"
  "and_then Undefined f = Undefined"
  by (simp_all add: and_then_def)

lemma defined_simps [simp]:
  "defined None b = Undefined"
  "defined (Some y) b = Done y b"
  by (simp_all add: defined_def)

lemma and_then_eq_Done:
  "and_then r f = Done y b' \<longleftrightarrow> (\<exists>x b1. r = Done x b1 \<and> f x b1 = Done y b')"
  by (cases r) simp_all

lemma and_then_eq_Threw:
  "and_then r f = Threw e b' \<longleftrightarrow>
     r = Threw e b' \<or> (\<exists>x b1. r = Done x b1 \<and> f x b1 = Threw e b')"
  by (cases r) auto

lemma defined_eq_Done: "defined x b = Done y b' \<longleftrightarrow> x = Some y \<and> b' = b"
  by (cases x) auto

lemma defined_neq_Threw [simp]: "defined x b \<noteq> Threw e b'"
  by (cases x) auto

lemma u32_less_2: "(c :: u32) < 2 \<longleftrightarrow> c = 0 \<or> c = 1"
proof -
  have "c < 2 \<longleftrightarrow> unat c < 2" by (simp add: word_less_nat_alt)
  also have "\<dots> \<longleftrightarrow> unat c = unat (0::u32) \<or> unat c = unat (1::u32)" by auto
  also have "\<dots> \<longleftrightarrow> c = 0 \<or> c = 1" by (simp only: word_unat_eq_iff)
  finally show ?thesis .
qed

lemma u32_2_le: "(2 \<le> (c :: u32)) \<longleftrightarrow> \<not> (c = 0 \<or> c = 1)"
  using u32_less_2 [of c] by (simp add: not_less [symmetric])

lemma state_succ:
  fixes s :: u32
  assumes "unat s < n" "n < 2 ^ 32"
  shows "unat (s + 1) = Suc (unat s)" "s + 1 \<noteq> 0"
proof -
  have "unat s + unat (1::u32) < 2 ^ LENGTH(32)" using assms by simp
  then have "unat (s + 1) = unat s + unat (1::u32)" by (simp only: unat_add_lem)
  then show "unat (s + 1) = Suc (unat s)" by simp
  then show "s + 1 \<noteq> 0" by (metis Zero_not_Suc unat_0)
qed

lemma arr_at_upd [simp]: "arr_at (arr_upd a i v) i = v"
  by (simp add: arr_at_def arr_upd_def)

lemma Forward_step:
  assumes "unat (state b) < length (msgs b)"
  shows "Forward L b =
     and_then (InterpretMsg L (msgs b ! unat (state b)) (forward_entry b))
       (\<lambda>_ b. Done () (b\<lparr>state := state b + 1\<rparr>))"
  using assms by (auto simp: Forward_def IsRealtime_def Let_def forward_entry_def)

lemma Forward_noop:
  assumes "length (msgs b) \<le> unat (state b)"
  shows "Forward L b = Done () b"
proof -
  have "length (msgs b) = 0 \<or> length (msgs b) - 1 < unat (state b)" using assms by arith
  then show ?thesis unfolding Forward_def by (simp only: if_True)
qed

lemma Backward_step:
  assumes "state b \<noteq> 0" "unat (state b - 1) < length (msgs b)"
  shows "Backward L b = InterpretMsg L (msgs b ! unat (state b - 1)) (backward_entry b)"
  using assms by (auto simp: Backward_def Let_def backward_entry_def)

subsection \<open>Construction is defined\<close>

lemma zone_loop_defined:
  assumes "loc = LocationMonsterZone L \<or> loc = LocationSpellZone L \<or> loc = LocationPendulumZone L"
    and "seq \<le> 6"
  shows "zone_loop L con loc seq tempMap \<noteq> None"
  using assms
proof (induction L con loc seq tempMap rule: zone_loop.induct)
  case (1 L con loc seq tempMap)
  show ?case
  proof (cases "(loc = LocationMonsterZone L \<and> 6 < seq + 1) \<or> (loc = LocationSpellZone L \<and> 5 < seq + 1)
      \<or> (loc = LocationPendulumZone L \<and> 1 < seq + 1)")
    case True
    then show ?thesis using "1.prems" by (subst zone_loop.simps) auto
  next
    case False
    then have "seq + 1 \<le> 6" using "1.prems" by auto
    with False "1.prems" have "zone_loop L con loc (seq + 1)
        (zones_emplace (con, loc, word_of_int seq, - 1) tempMap) \<noteq> None"
      by (intro "1.IH") auto
    then show ?thesis using False "1.prems" by (subst zone_loop.simps) auto
  qed
qed

lemma DuelBoard_init_defined: "\<exists>b0. DuelBoard_init L = Some b0"
proof -
  obtain m1 where m1: "zone_loop L 0 (LocationMonsterZone L) 0 [] = Some m1"
    using zone_loop_defined [of "LocationMonsterZone L" L 0 0 "[]"] by auto
  obtain m2 where m2: "zone_loop L 0 (LocationSpellZone L) 0 m1 = Some m2"
    using zone_loop_defined [of "LocationSpellZone L" L 0 0 m1] by auto
  obtain m3 where m3: "zone_loop L 0 (LocationPendulumZone L) 0 m2 = Some m3"
    using zone_loop_defined [of "LocationPendulumZone L" L 0 0 m2] by auto
  have "disabledZones_init L = Some m3"
    using m1 m2 m3 by (simp add: disabledZones_init_def)
  then show ?thesis by (simp add: DuelBoard_init_def)
qed

lemma DuelBoard_init_fields:
  assumes "DuelBoard_init L = Some b0"
  shows "turn b0 = 0" "playerLP b0 = (Sequential_init 0, Sequential_init 0)"
    "turnPlayer b0 = Sequential_init 0" "phase b0 = Sequential_init 0"
    "deck b0 = ([], [])" "hand b0 = ([], [])" "grave b0 = ([], [])" "rmp b0 = ([], [])"
    "eDeck b0 = ([], [])" "fieldZones b0 = Map.empty" "tempCards b0 = Map.empty"
    "state b0 = 0" "processedState b0 = 0" "msgs b0 = []"
    "disabledZones_init L = Some (disabledZones b0)"
  using assms by (auto simp: DuelBoard_init_def)

section \<open>Life points (C5)\<close>

lemma sint_neg_iff: "sint (w :: u32) < 0 \<longleftrightarrow> 2 ^ 31 \<le> uint w"
proof -
  have s: "sint w = (uint w + 2 ^ 31) mod 2 ^ 32 - 2 ^ 31"
    by (simp add: sint_uint signed_take_bit_eq_take_bit_shift take_bit_eq_mod)
  have r: "0 \<le> uint w" "uint w < 2 ^ 32" using uint_lt2p [of w] by simp_all
  show ?thesis
  proof (cases "uint w < 2 ^ 31")
    case True
    then have "(uint w + 2 ^ 31) mod 2 ^ 32 = uint w + 2 ^ 31"
      using r by (intro mod_pos_pos_trivial) simp_all
    then show ?thesis using True r s by simp
  next
    case False
    have "(uint w + 2 ^ 31) mod 2 ^ 32 = (uint w + 2 ^ 31 - 2 ^ 32) mod 2 ^ 32"
      by (metis mod_diff_right_eq mod_self diff_zero)
    also have "\<dots> = uint w + 2 ^ 31 - 2 ^ 32"
      using False r by (intro mod_pos_pos_trivial) simp_all
    finally show ?thesis using False r s by simp
  qed
qed

lemma lp_damage_value:
  fixes cur amount :: u32
  assumes "- (2 ^ 31) \<le> uint cur - uint amount" "uint cur - uint amount < 2 ^ 31"
  shows "uint (if sint (cur - amount) < 0 then 0 else cur - amount) = max 0 (uint cur - uint amount)"
  using assms uint_lt2p [of cur] uint_lt2p [of amount]
  by (simp add: sint_neg_iff uint_sub_if')

lemma lp_recover_value:
  fixes cur amount :: u32
  shows "uint (cur + amount) = (uint cur + uint amount) mod 2 ^ 32"
  by (simp add: uint_word_ariths)

lemma HandleLpChange_forward:
  assumes "player < 2" "advancing b" "Sequential_get (arr_at (playerLP b) player) = Some cur"
  shows "\<exists>v. HandleLpChange player ty amount b =
           Done () (b\<lparr>playerLP := arr_upd (playerLP b) player
              \<lparr>seq_l = (if realtime b then seq_l (arr_at (playerLP b) player) @ [v]
                        else seq_l (arr_at (playerLP b) player)),
               seq_it = Suc (seq_it (arr_at (playerLP b) player))\<rparr>\<rparr>)
         \<and> v = (case ty of CHANGE_DAMAGE \<Rightarrow> (if sint (cur - amount) < 0 then 0 else cur - amount)
                 | CHANGE_PAY \<Rightarrow> (if sint (cur - amount) < 0 then 0 else cur - amount)
                 | CHANGE_RECOVER \<Rightarrow> cur + amount
                 | CHANGE_BECOME \<Rightarrow> amount)"
proof -
  have "\<not> 2 \<le> player" using assms(1) by (simp add: not_le)
  then show ?thesis using assms(2,3)
    by (cases ty) (auto simp: HandleLpChange_def Let_def AddOrNext_def Sequential_get_def
      split: if_splits)
qed

lemma HandleLpChange_backward:
  assumes "player < 2" "\<not> advancing b" "0 < seq_it (arr_at (playerLP b) player)"
  shows "HandleLpChange player ty amount b =
           Done () (b\<lparr>playerLP := arr_upd (playerLP b) player
              ((arr_at (playerLP b) player)\<lparr>seq_it := seq_it (arr_at (playerLP b) player) - 1\<rparr>)\<rparr>)"
proof -
  have "\<not> 2 \<le> player" using assms(1) by (simp add: not_le)
  then show ?thesis using assms(2,3)
    by (simp add: HandleLpChange_def Let_def Prev_def)
qed

text \<open>
  C5 (as amended). An \<open>LpChange\<close> message stepped forward in realtime on a player 0 or 1
  whose cell reads \<open>cur\<close> appends one value \<open>v\<close> to that player's cell and advances it by
  one. For \<open>DAMAGE\<close> and \<open>PAY\<close>, \<open>v\<close> is 0 when the 32-bit difference \<open>cur - amount\<close> has
  its sign bit set and that difference otherwise; it is \<open>max(0, cur - amount)\<close> whenever
  \<open>-2^31 \<le> cur - amount < 2^31\<close>, and it is never negative. For \<open>RECOVER\<close>, \<open>v\<close> is
  \<open>cur + amount\<close> modulo \<open>2^32\<close>; for \<open>BECOME\<close> it is \<open>amount\<close>. When the cell's cursor
  was at its last element the cell then reads \<open>v\<close>. Stepping backward retreats the cell,
  which reads \<open>cur\<close> again.
\<close>

theorem C5_LpChange:
  assumes "unat (state b) < length (msgs b)" and "length (msgs b) < 2 ^ 32"
    and "msgs b ! unat (state b) = InformationMsg (LpChange player ty amount)"
    and "player < 2" and "state b = processedState b"
    and "Sequential_get (arr_at (playerLP b) player) = Some cur"
  shows "\<exists>v b'. Forward L b = Done () b' \<and>
      seq_l (arr_at (playerLP b') player) = seq_l (arr_at (playerLP b) player) @ [v] \<and>
      seq_it (arr_at (playerLP b') player) = Suc (seq_it (arr_at (playerLP b) player)) \<and>
      (Suc (seq_it (arr_at (playerLP b) player)) = length (seq_l (arr_at (playerLP b) player))
         \<longrightarrow> Sequential_get (arr_at (playerLP b') player) = Some v) \<and>
      (ty = CHANGE_DAMAGE \<or> ty = CHANGE_PAY \<longrightarrow>
         v = (if sint (cur - amount) < 0 then 0 else cur - amount) \<and> 0 \<le> uint v \<and>
         (- (2 ^ 31) \<le> uint cur - uint amount \<and> uint cur - uint amount < 2 ^ 31
            \<longrightarrow> uint v = max 0 (uint cur - uint amount))) \<and>
      (ty = CHANGE_RECOVER \<longrightarrow> v = cur + amount \<and> uint v = (uint cur + uint amount) mod 2 ^ 32) \<and>
      (ty = CHANGE_BECOME \<longrightarrow> v = amount) \<and>
      (\<exists>b''. Backward L b' = Done () b'' \<and> state b'' = state b \<and>
         Sequential_get (arr_at (playerLP b'') player) = Some cur)"
proof -
  let ?lp = "arr_at (playerLP b) player"
  let ?e = "forward_entry b"
  have e: "advancing ?e" "realtime ?e" "playerLP ?e = playerLP b" "msgs ?e = msgs b"
    "state ?e = state b"
    using assms(5) by (simp_all add: forward_entry_def)
  from HandleLpChange_forward [of player ?e cur ty amount] assms(4,6) e
  obtain v where h: "HandleLpChange player ty amount ?e =
       Done () (?e\<lparr>playerLP := arr_upd (playerLP b) player
          \<lparr>seq_l = seq_l ?lp @ [v], seq_it = Suc (seq_it ?lp)\<rparr>\<rparr>)"
    and v: "v = (case ty of CHANGE_DAMAGE \<Rightarrow> (if sint (cur - amount) < 0 then 0 else cur - amount)
                 | CHANGE_PAY \<Rightarrow> (if sint (cur - amount) < 0 then 0 else cur - amount)
                 | CHANGE_RECOVER \<Rightarrow> cur + amount
                 | CHANGE_BECOME \<Rightarrow> amount)"
    by auto
  define b' where "b' = ?e\<lparr>playerLP := arr_upd (playerLP b) player
          \<lparr>seq_l = seq_l ?lp @ [v], seq_it = Suc (seq_it ?lp)\<rparr>, state := state b + 1\<rparr>"
  have fw: "Forward L b = Done () b'"
    using assms(1,3) h by (simp add: Forward_step b'_def e)
  have lp': "arr_at (playerLP b') player = \<lparr>seq_l = seq_l ?lp @ [v], seq_it = Suc (seq_it ?lp)\<rparr>"
    by (simp add: b'_def)
  have cur: "seq_it ?lp < length (seq_l ?lp)" "seq_l ?lp ! seq_it ?lp = cur"
    using assms(6) by (auto simp: Sequential_get_def split: if_splits)
  have st: "state b' \<noteq> 0" "state b' - 1 = state b"
    using state_succ [OF assms(1,2)] by (simp_all add: b'_def)
  have be: "\<not> advancing (backward_entry b')" "playerLP (backward_entry b') = playerLP b'"
    by (simp_all add: backward_entry_def)
  have bw: "Backward L b' = HandleLpChange player ty amount (backward_entry b')"
    using st assms(1,3) by (subst Backward_step) (simp_all add: b'_def forward_entry_def)
  define b'' where "b'' = (backward_entry b')\<lparr>playerLP := arr_upd (playerLP b') player
      ((arr_at (playerLP b') player)\<lparr>seq_it := seq_it (arr_at (playerLP b') player) - 1\<rparr>)\<rparr>"
  have bw': "Backward L b' = Done () b''"
    unfolding bw b''_def
    using HandleLpChange_backward [of player "backward_entry b'" ty amount] assms(4) be lp'
    by simp
  have r: "Sequential_get (arr_at (playerLP b'') player) = Some cur" "state b'' = state b"
    using cur st by (simp_all add: b''_def lp' Sequential_get_def nth_append backward_entry_def)
  have dmg: "ty = CHANGE_DAMAGE \<or> ty = CHANGE_PAY \<Longrightarrow>
      v = (if sint (cur - amount) < 0 then 0 else cur - amount)"
    using v by auto
  have "\<lbrakk>ty = CHANGE_DAMAGE \<or> ty = CHANGE_PAY; - (2 ^ 31) \<le> uint cur - uint amount;
      uint cur - uint amount < 2 ^ 31\<rbrakk> \<Longrightarrow> uint v = max 0 (uint cur - uint amount)"
    using lp_damage_value [of cur amount] dmg by simp
  moreover have "ty = CHANGE_RECOVER \<Longrightarrow>
      v = cur + amount \<and> uint v = (uint cur + uint amount) mod 2 ^ 32"
    using v lp_recover_value [of cur amount] by simp
  moreover have "ty = CHANGE_BECOME \<Longrightarrow> v = amount" using v by simp
  moreover have "Suc (seq_it ?lp) = length (seq_l ?lp) \<Longrightarrow>
      Sequential_get (arr_at (playerLP b') player) = Some v"
    by (simp add: lp' Sequential_get_def nth_append)
  ultimately show ?thesis
    using fw lp' bw' r dmg by (intro exI [of _ v] exI [of _ b']) auto
qed

text \<open>Scenario 4 of the specification (1000 life points, 4000 damage) as an instance.\<close>

theorem C5_LpChange_witness:
  "\<exists>b0 b1 b2 b3. DuelBoard_init example_enums = Some b0 \<and> SetLP 0 1000 b0 = Done () b1 \<and>
     Forward example_enums (AppendMsg (InformationMsg (LpChange 0 CHANGE_DAMAGE 4000)) b1) = Done () b2 \<and>
     Sequential_get (arr_at (playerLP b2) 0) = Some 0 \<and>
     Backward example_enums b2 = Done () b3 \<and>
     Sequential_get (arr_at (playerLP b3) 0) = Some 1000"
proof -
  obtain b0 where b0: "DuelBoard_init example_enums = Some b0"
    using DuelBoard_init_defined by blast
  note f = DuelBoard_init_fields [OF b0]
  define b1 where "b1 = b0\<lparr>playerLP := arr_upd (playerLP b0) 0 \<lparr>seq_l = [0, 1000], seq_it = 1\<rparr>\<rparr>"
  have s: "SetLP 0 1000 b0 = Done () b1"
    by (simp add: SetLP_def f AddOrNext_def Sequential_init_def arr_at_def b1_def)
  define b where "b = AppendMsg (InformationMsg (LpChange 0 CHANGE_DAMAGE 4000)) b1"
  have h: "unat (state b) < length (msgs b)" "length (msgs b) < 2 ^ 32"
    "msgs b ! unat (state b) = InformationMsg (LpChange 0 CHANGE_DAMAGE 4000)"
    "(0::u32) < 2" "state b = processedState b"
    "Sequential_get (arr_at (playerLP b) 0) = Some 1000"
    by (simp_all add: b_def b1_def AppendMsg_def f Sequential_get_def)
  have lp: "arr_at (playerLP b) 0 = \<lparr>seq_l = [0, 1000], seq_it = 1\<rparr>"
    by (simp add: b_def b1_def AppendMsg_def)
  from C5_LpChange [OF h, of example_enums] obtain v b2 b3 where
    fw: "Forward example_enums b = Done () b2"
    and rd: "Suc (seq_it (arr_at (playerLP b) 0)) = length (seq_l (arr_at (playerLP b) 0))
         \<longrightarrow> Sequential_get (arr_at (playerLP b2) 0) = Some v"
    and v: "v = (if sint (1000 - 4000 :: u32) < 0 then 0 else 1000 - 4000)"
    and bw: "Backward example_enums b2 = Done () b3"
      "Sequential_get (arr_at (playerLP b3) 0) = Some 1000"
    by auto
  have "v = 0" using v by simp
  then have "Sequential_get (arr_at (playerLP b2) 0) = Some 0" using rd lp by simp
  then show ?thesis using b0 s fw bw unfolding b_def by blast
qed

text \<open>The claim as written fails above \<open>2^31\<close>: a player at 3000000000 life points who
  takes 0 damage is left with 0, not with \<open>max(0, 3000000000 - 0)\<close>.\<close>

theorem C5_LpChange_counterexample:
  "\<exists>b0 b1 b2. DuelBoard_init example_enums = Some b0 \<and> SetLP 0 3000000000 b0 = Done () b1 \<and>
     Sequential_get (arr_at (playerLP b1) 0) = Some 3000000000 \<and>
     Forward example_enums (AppendMsg (InformationMsg (LpChange 0 CHANGE_DAMAGE 0)) b1) = Done () b2 \<and>
     Sequential_get (arr_at (playerLP b2) 0) = Some 0 \<and>
     max 0 (uint (3000000000 :: u32) - uint (0 :: u32)) = 3000000000"
proof -
  obtain b0 where b0: "DuelBoard_init example_enums = Some b0"
    using DuelBoard_init_defined by blast
  note f = DuelBoard_init_fields [OF b0]
  define b1 where "b1 = b0\<lparr>playerLP := arr_upd (playerLP b0) 0 \<lparr>seq_l = [0, 3000000000], seq_it = 1\<rparr>\<rparr>"
  have s: "SetLP 0 3000000000 b0 = Done () b1"
    by (simp add: SetLP_def f AddOrNext_def Sequential_init_def arr_at_def b1_def)
  have g: "Sequential_get (arr_at (playerLP b1) 0) = Some 3000000000"
    by (simp add: b1_def Sequential_get_def)
  define b where "b = AppendMsg (InformationMsg (LpChange 0 CHANGE_DAMAGE 0)) b1"
  have hb: "state b = 0" "processedState b = 0"
    "msgs b = [InformationMsg (LpChange 0 CHANGE_DAMAGE 0)]"
    "arr_at (playerLP b) 0 = \<lparr>seq_l = [0, 3000000000], seq_it = Suc 0\<rparr>"
    by (simp_all add: b_def b1_def AppendMsg_def f)
  define b2 where "b2 = (forward_entry b)\<lparr>playerLP := arr_upd (playerLP b) 0
      \<lparr>seq_l = [0, 3000000000, 0], seq_it = Suc (Suc 0)\<rparr>, state := 1\<rparr>"
  have e: "advancing (forward_entry b)" "realtime (forward_entry b)"
    "playerLP (forward_entry b) = playerLP b" "state (forward_entry b) = 0"
    by (simp_all add: forward_entry_def hb)
  have "HandleLpChange 0 CHANGE_DAMAGE 0 (forward_entry b) =
      Done () ((forward_entry b)\<lparr>playerLP := arr_upd (playerLP b) 0
      \<lparr>seq_l = [0, 3000000000, 0], seq_it = Suc (Suc 0)\<rparr>\<rparr>)"
    using HandleLpChange_forward [of 0 "forward_entry b" 3000000000 CHANGE_DAMAGE 0] e hb
    by (simp add: Sequential_get_def)
  then have fw: "Forward example_enums b = Done () b2"
    by (simp add: Forward_step hb b2_def e)
  have "Sequential_get (arr_at (playerLP b2) 0) = Some 0"
    by (simp add: b2_def Sequential_get_def)
  then show ?thesis using b0 s g fw unfolding b_def by auto
qed

section \<open>Disabled zones (C8, C10)\<close>

lemma for_each_eq_Some:
  "for_each f xs = Some ys \<longleftrightarrow> list_all2 (\<lambda>x y. f x = Some y) xs ys"
proof (induction xs arbitrary: ys)
  case Nil
  show ?case by auto
next
  case (Cons x xs)
  show ?case
    by (cases ys) (auto simp: Cons.IH [symmetric] split: option.splits)
qed

lemma list_all2_pred_cong:
  assumes "\<And>x y. P x y = Q x y"
  shows "list_all2 P xs ys = list_all2 Q xs ys"
proof -
  have "P = Q" using assms by (auto simp: fun_eq_iff)
  then show ?thesis by simp
qed

lemma for_each_entry_step:
  "for_each (entry_step f) zs = Some zs' \<longleftrightarrow>
     list_all2 (\<lambda>z z'. fst z' = fst z \<and> f (snd z) = Some (snd z')) zs zs'"
  unfolding for_each_eq_Some
  by (rule list_all2_pred_cong) (auto simp: entry_step_def)

text \<open>The three passes of \<open>HandleDisableZones\<close> over the cells.\<close>

lemma zones_sync_eq:
  "zones_sync zs = Some zs' \<longleftrightarrow>
     list_all2 (\<lambda>z z'. fst z' = fst z \<and> seq_it (snd z) < length (seq_l (snd z)) \<and>
        snd z' = \<lparr>seq_l = seq_l (snd z), seq_it = Suc (seq_it (snd z))\<rparr>) zs zs'"
  unfolding zones_sync_def for_each_entry_step
  by (rule list_all2_pred_cong) (auto simp: AddOrNext_def)

lemma zones_append_eq:
  "zones_append tmpSet zs = Some zs' \<longleftrightarrow>
     list_all2 (\<lambda>z z'. fst z' = fst z \<and> seq_it (snd z) < length (seq_l (snd z)) \<and>
        snd z' = \<lparr>seq_l = seq_l (snd z) @ [fst z \<in> set tmpSet], seq_it = Suc (seq_it (snd z))\<rparr>)
       zs zs'"
  unfolding zones_append_def for_each_eq_Some
  by (rule list_all2_pred_cong) (auto simp: AddOrNext_def entry_step_def)

lemma zones_Prev_eq:
  "for_each (entry_step Prev) zs = Some zs' \<longleftrightarrow>
     list_all2 (\<lambda>z z'. fst z' = fst z \<and> 0 < seq_it (snd z) \<and>
        snd z' = \<lparr>seq_l = seq_l (snd z), seq_it = seq_it (snd z) - 1\<rparr>) zs zs'"
  unfolding for_each_entry_step
  by (rule list_all2_pred_cong) (auto simp: Prev_def)

lemma list_all2_total:
  "(\<forall>x \<in> set xs. \<exists>y. P x y) \<Longrightarrow> \<exists>ys. list_all2 P xs ys"
proof (induction xs)
  case Nil
  show ?case by simp
next
  case (Cons x xs)
  then obtain y ys where "P x y" "list_all2 P xs ys" by auto
  then have "list_all2 P (x # xs) (y # ys)" by simp
  then show ?case by blast
qed

lemma HandleDisableZones_realtime:
  assumes "advancing b" "realtime b"
  shows "HandleDisableZones places b = Done () b' \<longleftrightarrow>
     (\<exists>zs. b' = b\<lparr>disabledZones := zs\<rparr> \<and>
        list_all2 (\<lambda>z z'. fst z' = fst z \<and> seq_it (snd z) < length (seq_l (snd z)) \<and>
          snd z' = \<lparr>seq_l = seq_l (snd z) @ [fst z \<in> set (map PlaceFromProtobufPlace places)],
                    seq_it = Suc (seq_it (snd z))\<rparr>) (disabledZones b) zs)"
  using assms
  by (auto simp: HandleDisableZones_def and_then_eq_Done defined_eq_Done zones_append_eq)

lemma HandleDisableZones_replay:
  assumes "advancing b" "\<not> realtime b"
  shows "HandleDisableZones places b = Done () b' \<longleftrightarrow>
     (\<exists>zs. b' = b\<lparr>disabledZones := zs\<rparr> \<and>
        list_all2 (\<lambda>z z'. fst z' = fst z \<and> Suc (seq_it (snd z)) < length (seq_l (snd z)) \<and>
          snd z' = \<lparr>seq_l = seq_l (snd z) @ [fst z \<in> set (map PlaceFromProtobufPlace places)],
                    seq_it = seq_it (snd z) + 2\<rparr>) (disabledZones b) zs)"
proof -
  let ?S = "\<lambda>z z'. fst z' = fst z \<and> seq_it (snd z) < length (seq_l (snd z)) \<and>
        snd z' = \<lparr>seq_l = seq_l (snd z), seq_it = Suc (seq_it (snd z))\<rparr>"
  let ?A = "\<lambda>z z'. fst z' = fst z \<and> seq_it (snd z) < length (seq_l (snd z)) \<and>
        snd z' = \<lparr>seq_l = seq_l (snd z) @ [fst z \<in> set (map PlaceFromProtobufPlace places)],
                  seq_it = Suc (seq_it (snd z))\<rparr>"
  let ?R = "\<lambda>z z'. fst z' = fst z \<and> Suc (seq_it (snd z)) < length (seq_l (snd z)) \<and>
          snd z' = \<lparr>seq_l = seq_l (snd z) @ [fst z \<in> set (map PlaceFromProtobufPlace places)],
                    seq_it = seq_it (snd z) + 2\<rparr>"
  have comp: "(\<exists>ys. list_all2 ?S xs ys \<and> list_all2 ?A ys zs) \<longleftrightarrow> list_all2 ?R xs zs" for xs zs
  proof
    assume "\<exists>ys. list_all2 ?S xs ys \<and> list_all2 ?A ys zs"
    then obtain ys where "list_all2 ?S xs ys" "list_all2 ?A ys zs" by blast
    then show "list_all2 ?R xs zs"
      by (rule list_all2_trans [rotated 1]) auto
  next
    assume r: "list_all2 ?R xs zs"
    define ys where "ys = map (\<lambda>z. (fst z, \<lparr>seq_l = seq_l (snd z), seq_it = Suc (seq_it (snd z))\<rparr>)) xs"
    have "list_all2 ?S xs ys"
      unfolding ys_def list_all2_map2 using r
      by (auto simp: list_all2_conv_all_nth)
    moreover have "list_all2 ?A ys zs"
      unfolding ys_def list_all2_map1 using r
      by (auto simp: list_all2_conv_all_nth)
    ultimately show "\<exists>ys. list_all2 ?S xs ys \<and> list_all2 ?A ys zs" by blast
  qed
  have "HandleDisableZones places b = Done () b' \<longleftrightarrow>
      (\<exists>zs. b' = b\<lparr>disabledZones := zs\<rparr> \<and> (\<exists>ys. list_all2 ?S (disabledZones b) ys \<and> list_all2 ?A ys zs))"
  proof
    assume "HandleDisableZones places b = Done () b'"
    then obtain ys zs where "zones_sync (disabledZones b) = Some ys"
      "zones_append (map PlaceFromProtobufPlace places) ys = Some zs" "b' = b\<lparr>disabledZones := zs\<rparr>"
      using assms
      by (auto simp: HandleDisableZones_def and_then_eq_Done defined_eq_Done)
    then show "\<exists>zs. b' = b\<lparr>disabledZones := zs\<rparr> \<and> (\<exists>ys. list_all2 ?S (disabledZones b) ys \<and> list_all2 ?A ys zs)"
      unfolding zones_sync_eq zones_append_eq by blast
  next
    assume "\<exists>zs. b' = b\<lparr>disabledZones := zs\<rparr> \<and> (\<exists>ys. list_all2 ?S (disabledZones b) ys \<and> list_all2 ?A ys zs)"
    then obtain ys zs where "zones_sync (disabledZones b) = Some ys"
      "zones_append (map PlaceFromProtobufPlace places) ys = Some zs" "b' = b\<lparr>disabledZones := zs\<rparr>"
      unfolding zones_sync_eq zones_append_eq by blast
    then show "HandleDisableZones places b = Done () b'"
      using assms by (simp add: HandleDisableZones_def)
  qed
  then show ?thesis unfolding comp .
qed

lemma HandleDisableZones_backward:
  assumes "\<not> advancing b"
  shows "HandleDisableZones places b = Done () b' \<longleftrightarrow>
     (\<exists>zs. b' = b\<lparr>disabledZones := zs\<rparr> \<and>
        list_all2 (\<lambda>z z'. fst z' = fst z \<and> 0 < seq_it (snd z) \<and>
          snd z' = \<lparr>seq_l = seq_l (snd z), seq_it = seq_it (snd z) - 1\<rparr>) (disabledZones b) zs)"
  using assms
  by (auto simp: HandleDisableZones_def and_then_eq_Done defined_eq_Done zones_Prev_eq)


lemma disabledZones_init_example:
  "disabledZones_init example_enums = Some
     [((0, 4, 0, - 1), Sequential_init False), ((0, 4, 1, - 1), Sequential_init False),
      ((0, 4, 2, - 1), Sequential_init False), ((0, 4, 3, - 1), Sequential_init False),
      ((0, 4, 4, - 1), Sequential_init False), ((0, 4, 5, - 1), Sequential_init False),
      ((0, 4, 6, - 1), Sequential_init False), ((0, 8, 0, - 1), Sequential_init False),
      ((0, 8, 1, - 1), Sequential_init False), ((0, 8, 2, - 1), Sequential_init False),
      ((0, 8, 3, - 1), Sequential_init False), ((0, 8, 4, - 1), Sequential_init False),
      ((0, 8, 5, - 1), Sequential_init False), ((0, 512, 0, - 1), Sequential_init False),
      ((0, 512, 1, - 1), Sequential_init False)]"
  by (simp add: disabledZones_init_def zone_loop.simps zones_emplace_def example_enums_def)

text \<open>
  C10. A \<open>DisableZones\<close> message stepped forward while re-walking history
  (\<open>state \<noteq> processedState\<close>) on cells that each have a recorded element after the
  current one: the step completes, every cell's cursor has advanced by two and its history
  has grown by one element (the membership of its place in \<open>places\<close>). The backward step
  over the same message then completes and retreats every cursor by one only.
\<close>

theorem C10_DisableZones_replay:
  assumes "unat (state b) < length (msgs b)" and "length (msgs b) < 2 ^ 32"
    and "msgs b ! unat (state b) = InformationMsg (DisableZones places)"
    and "state b \<noteq> processedState b"
    and "\<forall>z \<in> set (disabledZones b). Suc (seq_it (snd z)) < length (seq_l (snd z))"
  shows "\<exists>b'. Forward L b = Done () b' \<and>
      list_all2 (\<lambda>z z'. fst z' = fst z \<and> seq_it (snd z') = seq_it (snd z) + 2 \<and>
          seq_l (snd z') = seq_l (snd z) @ [fst z \<in> set (map PlaceFromProtobufPlace places)])
        (disabledZones b) (disabledZones b') \<and>
      (\<exists>b''. Backward L b' = Done () b'' \<and> state b'' = state b \<and>
         list_all2 (\<lambda>z' z''. fst z'' = fst z' \<and> Suc (seq_it (snd z'')) = seq_it (snd z') \<and>
             seq_l (snd z'') = seq_l (snd z'))
           (disabledZones b') (disabledZones b''))"
proof -
  let ?R = "\<lambda>z z'. fst z' = fst z \<and> Suc (seq_it (snd z)) < length (seq_l (snd z)) \<and>
          snd z' = \<lparr>seq_l = seq_l (snd z) @ [fst z \<in> set (map PlaceFromProtobufPlace places)],
                    seq_it = seq_it (snd z) + 2\<rparr>"
  let ?P = "\<lambda>z z'. fst z' = fst z \<and> 0 < seq_it (snd z) \<and>
          snd z' = \<lparr>seq_l = seq_l (snd z), seq_it = seq_it (snd z) - 1\<rparr>"
  let ?e = "forward_entry b"
  have e: "advancing ?e" "\<not> realtime ?e" "disabledZones ?e = disabledZones b"
    using assms(4) by (simp_all add: forward_entry_def)
  have "\<exists>zs. list_all2 ?R (disabledZones b) zs"
    using assms(5) by (intro list_all2_total) auto
  then obtain zs where zs: "list_all2 ?R (disabledZones b) zs" by blast
  define b' where "b' = ?e\<lparr>disabledZones := zs, state := state b + 1\<rparr>"
  have "HandleDisableZones places ?e = Done () (?e\<lparr>disabledZones := zs\<rparr>)"
    using zs e by (subst HandleDisableZones_replay) auto
  then have fw: "Forward L b = Done () b'"
    using assms(1,3) by (simp add: Forward_step b'_def forward_entry_def)
  have st: "state b' \<noteq> 0" "state b' - 1 = state b"
    using state_succ [OF assms(1,2)] by (simp_all add: b'_def)
  have pos: "0 < seq_it (snd z')" if "z' \<in> set zs" for z'
  proof -
    from that obtain i where i: "i < length zs" "z' = zs ! i" by (auto simp: in_set_conv_nth)
    then have "?R (disabledZones b ! i) (zs ! i)" using zs by (simp add: list_all2_conv_all_nth)
    then show ?thesis using i by simp
  qed
  have "\<exists>zs'. list_all2 ?P zs zs'"
    using pos by (intro list_all2_total) auto
  then obtain zs' where zs': "list_all2 ?P zs zs'" by blast
  define b'' where "b'' = (backward_entry b')\<lparr>disabledZones := zs'\<rparr>"
  have be: "\<not> advancing (backward_entry b')" "disabledZones (backward_entry b') = zs"
    by (simp_all add: backward_entry_def b'_def)
  have "HandleDisableZones places (backward_entry b') = Done () b''"
    using zs' be by (subst HandleDisableZones_backward) (auto simp: b''_def)
  then have bw: "Backward L b' = Done () b''"
    using st assms(1,3) by (subst Backward_step) (simp_all add: b'_def forward_entry_def)
  have 1: "list_all2 (\<lambda>z z'. fst z' = fst z \<and> seq_it (snd z') = seq_it (snd z) + 2 \<and>
          seq_l (snd z') = seq_l (snd z) @ [fst z \<in> set (map PlaceFromProtobufPlace places)])
        (disabledZones b) (disabledZones b')"
    using zs by (auto simp: b'_def elim!: list_all2_mono)
  have 2: "list_all2 (\<lambda>z' z''. fst z'' = fst z' \<and> Suc (seq_it (snd z'')) = seq_it (snd z') \<and>
             seq_l (snd z'') = seq_l (snd z')) (disabledZones b') (disabledZones b'')"
    using zs' by (auto simp: b'_def b''_def elim!: list_all2_mono)
  have "state b'' = state b" using st by (simp add: b''_def backward_entry_def)
  then show ?thesis using fw bw 1 2 by blast
qed


lemma DisableZones_example_realtime:
  assumes "msgs b = [example_DisableZones]" "state b = 0" "processedState b = 0"
    "disabledZones b = example_zones off i on" "i < length off" "i < length on"
  shows "Forward L b = Done ()
     ((forward_entry b)\<lparr>disabledZones := example_zones (off @ [False]) (Suc i) (on @ [True]),
        state := 1\<rparr>)"
  using assms
  by (simp add: Forward_step example_DisableZones_def forward_entry_def HandleDisableZones_def
      zones_append_def entry_step_def AddOrNext_def PlaceFromProtobufPlace_def example_zones_def)

lemma DisableZones_example_replay:
  assumes "msgs b = [example_DisableZones]" "state b = 0" "processedState b = 1"
    "disabledZones b = example_zones off i on" "Suc i < length off" "Suc i < length on"
  shows "Forward L b = Done ()
     ((forward_entry b)\<lparr>disabledZones := example_zones (off @ [False]) (Suc (Suc i)) (on @ [True]),
        state := 1\<rparr>)"
  using assms
  by (simp add: Forward_step example_DisableZones_def forward_entry_def HandleDisableZones_def
      zones_append_def zones_sync_def entry_step_def AddOrNext_def PlaceFromProtobufPlace_def
      example_zones_def)

lemma DisableZones_example_backward:
  assumes "msgs b = [example_DisableZones]" "state b = 1"
    "disabledZones b = example_zones off (Suc i) on"
  shows "Backward L b = Done ()
     ((backward_entry b)\<lparr>disabledZones := example_zones off i on\<rparr>)"
  using assms
  by (simp add: Backward_step example_DisableZones_def backward_entry_def HandleDisableZones_def
      entry_step_def Prev_def example_zones_def)


lemma DuelBoard_init_example_zones:
  assumes "DuelBoard_init example_enums = Some b0"
  shows "disabledZones b0 = example_zones [False] 0 [False]"
  using DuelBoard_init_fields(15) [OF assms]
  by (simp add: disabledZones_init_example example_zones_def Sequential_init_def)

lemma DisableZones_example_run:
  "\<exists>b0 b1 b2. DuelBoard_init example_enums = Some b0 \<and>
     Forward example_enums (AppendMsg example_DisableZones b0) = Done () b1 \<and>
     Backward example_enums b1 = Done () b2 \<and>
     disabledZones b1 = example_zones [False, False] 1 [False, True] \<and>
     disabledZones b2 = example_zones [False, False] 0 [False, True] \<and>
     msgs b2 = [example_DisableZones] \<and> state b2 = 0 \<and> processedState b2 = 1"
proof -
  obtain b0 where b0: "DuelBoard_init example_enums = Some b0"
    using DuelBoard_init_defined by blast
  note f = DuelBoard_init_fields [OF b0] DuelBoard_init_example_zones [OF b0]
  define b where "b = AppendMsg example_DisableZones b0"
  have hb: "msgs b = [example_DisableZones]" "state b = 0" "processedState b = 0"
    "disabledZones b = example_zones [False] 0 [False]"
    by (simp_all add: b_def AppendMsg_def f)
  define b1 where "b1 = (forward_entry b)\<lparr>disabledZones :=
      example_zones ([False] @ [False]) (Suc 0) ([False] @ [True]), state := 1\<rparr>"
  have fw: "Forward example_enums b = Done () b1"
    unfolding b1_def by (rule DisableZones_example_realtime) (simp_all add: hb)
  have h1: "msgs b1 = [example_DisableZones]" "state b1 = 1" "processedState b1 = 1"
    "disabledZones b1 = example_zones [False, False] (Suc 0) [False, True]"
    by (simp_all add: b1_def forward_entry_def hb)
  define b2 where "b2 = (backward_entry b1)\<lparr>disabledZones :=
      example_zones [False, False] 0 [False, True]\<rparr>"
  have bw: "Backward example_enums b1 = Done () b2"
    unfolding b2_def by (rule DisableZones_example_backward) (simp_all add: h1)
  have h2: "msgs b2 = [example_DisableZones]" "state b2 = 0" "processedState b2 = 1"
    "disabledZones b2 = example_zones [False, False] 0 [False, True]"
    by (simp_all add: b2_def backward_entry_def h1)
  show ?thesis using b0 fw bw h1 h2 unfolding b_def by auto
qed

text \<open>The instance: one \<open>DisableZones\<close> message, stepped forward, backward, and forward
  again; the cursors go 0, 2 and, after the last backward step, 1.\<close>

theorem C10_DisableZones_replay_witness:
  "\<exists>b0 b1 b2 b3 b4. DuelBoard_init example_enums = Some b0 \<and>
     Forward example_enums (AppendMsg example_DisableZones b0) = Done () b1 \<and>
     Backward example_enums b1 = Done () b2 \<and>
     state b2 \<noteq> processedState b2 \<and>
     map (seq_it \<circ> snd) (disabledZones b2) = replicate 15 0 \<and>
     map (length \<circ> seq_l \<circ> snd) (disabledZones b2) = replicate 15 2 \<and>
     Forward example_enums b2 = Done () b3 \<and>
     map (seq_it \<circ> snd) (disabledZones b3) = replicate 15 2 \<and>
     map (length \<circ> seq_l \<circ> snd) (disabledZones b3) = replicate 15 3 \<and>
     Backward example_enums b3 = Done () b4 \<and>
     map (seq_it \<circ> snd) (disabledZones b4) = replicate 15 1"
proof -
  obtain b0 b1 b2 where r: "DuelBoard_init example_enums = Some b0"
     "Forward example_enums (AppendMsg example_DisableZones b0) = Done () b1"
     "Backward example_enums b1 = Done () b2"
     and h2: "disabledZones b2 = example_zones [False, False] 0 [False, True]"
     "msgs b2 = [example_DisableZones]" "state b2 = 0" "processedState b2 = 1"
    using DisableZones_example_run by blast
  have h: "unat (state b2) < length (msgs b2)" "length (msgs b2) < 2 ^ 32"
    "msgs b2 ! unat (state b2) =
       InformationMsg (DisableZones [\<lparr>pl_controller = 0, pl_location = 4, pl_sequence = 2\<rparr>])"
    "state b2 \<noteq> processedState b2"
    "\<forall>z \<in> set (disabledZones b2). Suc (seq_it (snd z)) < length (seq_l (snd z))"
    by (simp_all add: h2 example_DisableZones_def example_zones_def)
  from C10_DisableZones_replay [OF h, of example_enums] obtain b3 b4 where
    fw: "Forward example_enums b2 = Done () b3"
    and z3: "list_all2 (\<lambda>z z'. fst z' = fst z \<and> seq_it (snd z') = seq_it (snd z) + 2 \<and>
          seq_l (snd z') = seq_l (snd z) @
            [fst z \<in> set (map PlaceFromProtobufPlace [\<lparr>pl_controller = 0, pl_location = 4, pl_sequence = 2\<rparr>])])
        (disabledZones b2) (disabledZones b3)"
    and bw: "Backward example_enums b3 = Done () b4"
    and z4: "list_all2 (\<lambda>z' z''. fst z'' = fst z' \<and> Suc (seq_it (snd z'')) = seq_it (snd z') \<and>
             seq_l (snd z'') = seq_l (snd z')) (disabledZones b3) (disabledZones b4)"
    by blast
  have c3: "map (seq_it \<circ> snd) (disabledZones b3) = replicate 15 2"
    "map (length \<circ> seq_l \<circ> snd) (disabledZones b3) = replicate 15 3"
    using z3 unfolding h2 example_zones_def
    by (auto simp: list_all2_Cons1 eval_nat_numeral)
  have c4: "map (seq_it \<circ> snd) (disabledZones b4) = replicate 15 1"
    using z4 c3(1) by (auto simp: list_all2_Cons1 list_all2_Cons2 eval_nat_numeral)
  have c2: "map (seq_it \<circ> snd) (disabledZones b2) = replicate 15 0"
     "map (length \<circ> seq_l \<circ> snd) (disabledZones b2) = replicate 15 2"
    by (simp_all add: h2 example_zones_def eval_nat_numeral)
  show ?thesis using r h(4) c2 fw c3 bw c4 by blast
qed

text \<open>
  C8. The code at the failing input: a log with one \<open>DisableZones\<close> message for monster
  zone 2 of controller 0, stepped forward, backward, forward and backward. After the first
  backward step the zone reads \<open>false\<close>, its value before the message; after the second
  backward step it reads \<open>true\<close>.
\<close>

theorem C8_DisableZones_replay_example:
  "\<exists>b0 b1 b2 b3 b4. DuelBoard_init example_enums = Some b0 \<and>
     Forward example_enums (AppendMsg example_DisableZones b0) = Done () b1 \<and>
     Backward example_enums b1 = Done () b2 \<and>
     Forward example_enums b2 = Done () b3 \<and>
     Backward example_enums b3 = Done () b4 \<and>
     map_option Sequential_get (map_of (disabledZones b1) (0, 4, 2, - 1)) = Some (Some True) \<and>
     map_option Sequential_get (map_of (disabledZones b2) (0, 4, 2, - 1)) = Some (Some False) \<and>
     map_option Sequential_get (map_of (disabledZones b3) (0, 4, 2, - 1)) = Some (Some True) \<and>
     map_option Sequential_get (map_of (disabledZones b4) (0, 4, 2, - 1)) = Some (Some True)"
proof -
  obtain b0 b1 b2 where r: "DuelBoard_init example_enums = Some b0"
     "Forward example_enums (AppendMsg example_DisableZones b0) = Done () b1"
     "Backward example_enums b1 = Done () b2"
     and h1: "disabledZones b1 = example_zones [False, False] 1 [False, True]"
     and h2: "disabledZones b2 = example_zones [False, False] 0 [False, True]"
     "msgs b2 = [example_DisableZones]" "state b2 = 0" "processedState b2 = 1"
    using DisableZones_example_run by blast
  define b3 where "b3 = (forward_entry b2)\<lparr>disabledZones :=
      example_zones ([False, False] @ [False]) (Suc (Suc 0)) ([False, True] @ [True]), state := 1\<rparr>"
  have fw: "Forward example_enums b2 = Done () b3"
    unfolding b3_def by (rule DisableZones_example_replay) (simp_all add: h2)
  have h3: "msgs b3 = [example_DisableZones]" "state b3 = 1"
    "disabledZones b3 = example_zones [False, False, False] (Suc (Suc 0)) [False, True, True]"
    by (simp_all add: b3_def forward_entry_def h2)
  define b4 where "b4 = (backward_entry b3)\<lparr>disabledZones :=
      example_zones [False, False, False] (Suc 0) [False, True, True]\<rparr>"
  have bw: "Backward example_enums b3 = Done () b4"
    unfolding b4_def by (rule DisableZones_example_backward) (simp_all add: h3)
  have h4: "disabledZones b4 = example_zones [False, False, False] (Suc 0) [False, True, True]"
    by (simp add: b4_def)
  have "map_option Sequential_get (map_of (disabledZones b1) (0, 4, 2, - 1)) = Some (Some True)"
    "map_option Sequential_get (map_of (disabledZones b2) (0, 4, 2, - 1)) = Some (Some False)"
    "map_option Sequential_get (map_of (disabledZones b3) (0, 4, 2, - 1)) = Some (Some True)"
    "map_option Sequential_get (map_of (disabledZones b4) (0, 4, 2, - 1)) = Some (Some True)"
    by (simp_all add: h1 h2 h3 h4 example_zones_def Sequential_get_def)
  then show ?thesis using r fw bw by blast
qed

section \<open>The domain of the disabled zones (C2)\<close>

lemma zones_emplace_keys: "fst ` set (zones_emplace k m) = insert k (fst ` set m)"
  by (auto simp: zones_emplace_def)

lemma zone_loop_keys:
  assumes "zone_loop L con loc seq m = Some m'"
  shows "fst ` set m \<subseteq> fst ` set m' \<and> (con, loc, word_of_int seq, - 1) \<in> fst ` set m' \<and>
         (\<forall>k \<in> fst ` set m'. k \<in> fst ` set m \<or> fst k = con)"
  using assms
proof (induction L con loc seq m rule: zone_loop.induct)
  case (1 L con loc seq tempMap)
  show ?case
  proof (cases "(loc = LocationMonsterZone L \<and> 6 < seq + 1) \<or> (loc = LocationSpellZone L \<and> 5 < seq + 1)
      \<or> (loc = LocationPendulumZone L \<and> 1 < seq + 1)")
    case True
    then have "m' = zones_emplace (con, loc, word_of_int seq, - 1) tempMap"
      using "1.prems" by (subst (asm) zone_loop.simps) (auto split: if_splits)
    then show ?thesis by (auto simp: zones_emplace_keys)
  next
    case False
    have ns: "\<not> 2147483647 \<le> seq"
      using "1.prems" by (subst (asm) zone_loop.simps) (auto split: if_splits)
    have rec: "zone_loop L con loc (seq + 1) (zones_emplace (con, loc, word_of_int seq, - 1) tempMap) = Some m'"
      using "1.prems" False ns by (subst (asm) zone_loop.simps) (auto split: if_splits)
    have ih: "fst ` set (zones_emplace (con, loc, word_of_int seq, - 1) tempMap) \<subseteq> fst ` set m' \<and>
         (con, loc, word_of_int (seq + 1), - 1) \<in> fst ` set m' \<and>
         (\<forall>k \<in> fst ` set m'. k \<in> fst ` set (zones_emplace (con, loc, word_of_int seq, - 1) tempMap) \<or> fst k = con)"
      using False ns rec by (intro "1.IH") auto
    then show ?thesis unfolding zones_emplace_keys by auto
  qed
qed

lemma disabledZones_init_keys:
  assumes "disabledZones_init L = Some m"
  shows "(0, LocationMonsterZone L, 0, - 1) \<in> fst ` set m \<and> (\<forall>k \<in> fst ` set m. fst k = 0)"
proof -
  obtain m1 where m1: "zone_loop L 0 (LocationMonsterZone L) 0 [] = Some m1"
    using zone_loop_defined [of "LocationMonsterZone L" L 0 0 "[]"] by auto
  obtain m2 where m2: "zone_loop L 0 (LocationSpellZone L) 0 m1 = Some m2"
    using zone_loop_defined [of "LocationSpellZone L" L 0 0 m1] by auto
  obtain m3 where m3: "zone_loop L 0 (LocationPendulumZone L) 0 m2 = Some m3"
    using zone_loop_defined [of "LocationPendulumZone L" L 0 0 m2] by auto
  have "disabledZones_init L = Some m3"
    using m1 m2 m3 by (simp add: disabledZones_init_def)
  then have m: "m3 = m" using assms by simp
  have k1: "(0, LocationMonsterZone L, 0, - 1) \<in> fst ` set m1" "\<forall>k \<in> fst ` set m1. fst k = 0"
    using zone_loop_keys [OF m1] by simp_all
  have s2: "fst ` set m1 \<subseteq> fst ` set m2" "\<forall>k \<in> fst ` set m2. k \<in> fst ` set m1 \<or> fst k = 0"
    using zone_loop_keys [OF m2] by simp_all
  have s3: "fst ` set m2 \<subseteq> fst ` set m3" "\<forall>k \<in> fst ` set m3. k \<in> fst ` set m2 \<or> fst k = 0"
    using zone_loop_keys [OF m3] by simp_all
  have a: "(0, LocationMonsterZone L, 0, - 1) \<in> fst ` set m3"
    using k1(1) s2(1) s3(1) by (meson subsetD)
  have z2: "fst k = 0" if "k \<in> fst ` set m2" for k
  proof -
    have "k \<in> fst ` set m1 \<or> fst k = 0" by (rule bspec [OF s2(2) that])
    then show ?thesis using bspec [OF k1(2), of k] by blast
  qed
  have z3: "fst k = 0" if "k \<in> fst ` set m3" for k
  proof -
    have "k \<in> fst ` set m2 \<or> fst k = 0" by (rule bspec [OF s3(2) that])
    then show ?thesis using z2 [of k] by blast
  qed
  have "\<forall>k \<in> fst ` set m3. fst k = 0" by (rule ballI) (rule z3)
  with a show ?thesis unfolding m by (rule conjI)
qed

text \<open>
  C2. The code at construction, for any values of the enumerators: the board is built,
  monster zone 0 of controller 0 is a key of \<open>disabledZones\<close>, and every key has
  controller 0 (the loop \<open>for (int con = 0; con < 1; con++)\<close> runs once).
\<close>

theorem C2_disabledZones_controller_0:
  "\<exists>b0. DuelBoard_init L = Some b0 \<and>
     (0, LocationMonsterZone L, 0, - 1) \<in> fst ` set (disabledZones b0) \<and>
     (\<forall>k \<in> fst ` set (disabledZones b0). fst k = 0)"
proof -
  obtain b0 where b0: "DuelBoard_init L = Some b0" using DuelBoard_init_defined by blast
  from disabledZones_init_keys [OF DuelBoard_init_fields(15) [OF b0]] b0
  show ?thesis by blast
qed

text \<open>With the example enumerators: no zone of controller 1 is a key.\<close>

theorem C2_disabledZones_controller_0_witness:
  "\<exists>b0. DuelBoard_init example_enums = Some b0 \<and>
     (0, 4, 0, - 1) \<in> fst ` set (disabledZones b0) \<and>
     (1, 4, 0, - 1) \<notin> fst ` set (disabledZones b0) \<and>
     (1, 8, 0, - 1) \<notin> fst ` set (disabledZones b0) \<and>
     (1, 512, 0, - 1) \<notin> fst ` set (disabledZones b0)"
proof -
  from C2_disabledZones_controller_0 [of example_enums] obtain b0 where
    b0: "DuelBoard_init example_enums = Some b0"
    and k: "(0, LocationMonsterZone example_enums, 0, - 1) \<in> fst ` set (disabledZones b0)"
      "\<forall>k \<in> fst ` set (disabledZones b0). fst k = 0"
    by blast
  have "(1, 4, 0, - 1) \<notin> fst ` set (disabledZones b0)"
    "(1, 8, 0, - 1) \<notin> fst ` set (disabledZones b0)"
    "(1, 512, 0, - 1) \<notin> fst ` set (disabledZones b0)"
    using k(2) by fastforce+
  moreover have "(0, 4, 0, - 1) \<in> fst ` set (disabledZones b0)"
    using k(1) by (simp add: example_enums_def)
  ultimately show ?thesis using b0 by blast
qed

section \<open>GetCard (C4)\<close>

lemma GetCard_field:
  assumes "\<not> IsPile L place"
  shows "GetCard L place b = Done (InField place) (fieldZones_subscript place b)"
  using assms by (simp add: GetCard_def)

text \<open>
  C4. The code at the failing input: \<open>GetCard\<close> on monster zone 2 of controller 0 of the
  freshly built board, a field place that holds no card. The call returns a reference and
  leaves a default-constructed card in \<open>fieldZones\<close> at that place.
\<close>

theorem C4_GetCard_empty_field_slot:
  "\<exists>b0 b'. DuelBoard_init example_enums = Some b0 \<and>
     \<not> IsPile example_enums (0, 4, 2, - 1) \<and> fieldZones b0 (0, 4, 2, - 1) = None \<and>
     GetCard example_enums (0, 4, 2, - 1) b0 = Done (InField (0, 4, 2, - 1)) b' \<and>
     fieldZones b' (0, 4, 2, - 1) = Some Card_init \<and> fieldZones b' \<noteq> fieldZones b0"
proof -
  obtain b0 where b0: "DuelBoard_init example_enums = Some b0"
    using DuelBoard_init_defined by blast
  note f = DuelBoard_init_fields [OF b0]
  have p: "\<not> IsPile example_enums (0, 4, 2, - 1)"
    by (simp add: IsPile_def IsPile_location_def example_enums_def)
  define b' where "b' = fieldZones_subscript (0, 4, 2, - 1) b0"
  have "GetCard example_enums (0, 4, 2, - 1) b0 = Done (InField (0, 4, 2, - 1)) b'"
    unfolding b'_def using p by (rule GetCard_field)
  moreover have s: "fieldZones b' (0, 4, 2, - 1) = Some Card_init"
    by (simp add: b'_def fieldZones_subscript_def f)
  moreover have n: "fieldZones b0 (0, 4, 2, - 1) = None" by (simp add: f)
  moreover have "fieldZones b' \<noteq> fieldZones b0"
  proof
    assume "fieldZones b' = fieldZones b0"
    then have "fieldZones b' (0, 4, 2, - 1) = fieldZones b0 (0, 4, 2, - 1)" by simp
    then show False using s n by simp
  qed
  ultimately show ?thesis using b0 p by blast
qed

section \<open>What the handlers leave alone\<close>

lemma cursor_of_set_pile [simp]: "cursor_of (set_pile b r xs) = cursor_of b"
  by (cases "fst r") (simp_all add: set_pile_def cursor_of_def)

lemma cursor_of_set_card [simp]: "cursor_of (set_card b r c) = cursor_of b"
proof (cases r)
  case (InPile p i)
  then show ?thesis by (simp add: set_card_def)
next
  case (InField place)
  then show ?thesis by (simp add: set_card_def cursor_of_def)
qed

lemma cursor_of_updates [simp]:
  "cursor_of (b\<lparr>fieldZones := fz\<rparr>) = cursor_of b"
  "cursor_of (b\<lparr>tempCards := tc\<rparr>) = cursor_of b"
  "cursor_of (b\<lparr>playerLP := lp\<rparr>) = cursor_of b"
  "cursor_of (b\<lparr>turnPlayer := tp\<rparr>) = cursor_of b"
  "cursor_of (b\<lparr>phase := ph\<rparr>) = cursor_of b"
  "cursor_of (b\<lparr>turn := t\<rparr>) = cursor_of b"
  "cursor_of (b\<lparr>deck := d\<rparr>) = cursor_of b"
  "cursor_of (b\<lparr>hand := h\<rparr>) = cursor_of b"
  by (simp_all add: cursor_of_def)

lemma cursor_of_fieldZones_subscript [simp]:
  "cursor_of (fieldZones_subscript place b) = cursor_of b"
  by (simp add: fieldZones_subscript_def split: option.splits)

lemma cursor_of_fieldZones_emplace [simp]:
  "cursor_of (fieldZones_emplace place c b) = cursor_of b"
  by (simp add: fieldZones_emplace_def split: option.splits)

lemma cursor_of_tempCards_emplace [simp]:
  "cursor_of (tempCards_emplace t c b) = cursor_of b"
  by (simp add: tempCards_emplace_def split: option.splits)

text \<open>Lookups neither change the board nor throw after changing it.\<close>

lemma pile_ref_Done: "pile_ref k c b = Done p b' \<Longrightarrow> b' = b \<and> p = (k, c) \<and> c < 2"
  by (auto simp: pile_ref_def split: if_splits)

lemma pile_ref_Threw [simp]: "pile_ref k c b \<noteq> Threw e b'"
  by (auto simp: pile_ref_def)

lemma GetPile_Done: "GetPile L c loc b = Done p b' \<Longrightarrow> b' = b \<and> snd p = c \<and> c < 2"
  by (auto simp: GetPile_def split: if_splits dest!: pile_ref_Done)

lemma GetPile_Threw: "GetPile L c loc b = Threw e b' \<Longrightarrow> b' = b \<and> e = UnknownLocation"
  by (auto simp: GetPile_def split: if_splits)

lemma GetPile_place_Done: "GetPile_place L place b = Done p b' \<Longrightarrow> b' = b \<and> snd p < 2"
  by (auto simp: GetPile_place_def dest!: GetPile_Done)

lemma GetPile_place_Threw: "GetPile_place L place b = Threw e b' \<Longrightarrow> b' = b \<and> e = UnknownLocation"
  by (auto simp: GetPile_place_def dest!: GetPile_Threw)

lemma pile_card_Done: "pile_card p i b = Done r b' \<Longrightarrow> b' = b \<and> r = InPile p i \<and> i < length (pile b p)"
  by (auto simp: pile_card_def split: if_splits)

lemma pile_card_Threw [simp]: "pile_card p i b \<noteq> Threw e b'"
  by (auto simp: pile_card_def)

lemma deck_top_card_Done: "deck_top_card p n b = Done r b' \<Longrightarrow> b' = b"
  by (auto simp: deck_top_card_def split: if_splits)

lemma deck_top_card_Threw [simp]: "deck_top_card p n b \<noteq> Threw e b'"
  by (auto simp: deck_top_card_def)

lemma modify_card_Done: "modify_card r f b = Done x b' \<Longrightarrow> cursor_of b' = cursor_of b"
  by (auto simp: modify_card_def split: option.splits)

lemma modify_card_Threw [simp]: "modify_card r f b \<noteq> Threw e b'"
  by (auto simp: modify_card_def split: option.splits)

lemma GetCard_Done: "GetCard L place b = Done r b' \<Longrightarrow> cursor_of b' = cursor_of b"
  by (auto simp: GetCard_def and_then_eq_Done split: if_splits
      dest!: GetPile_place_Done pile_card_Done)

lemma GetCard_Threw: "GetCard L place b = Threw e b' \<Longrightarrow> b' = b \<and> e = UnknownLocation"
  by (auto simp: GetCard_def and_then_eq_Threw split: if_splits
      dest!: GetPile_place_Done GetPile_place_Threw)

lemma ClearAllCounters_Done: "ClearAllCounters r b = Done x b' \<Longrightarrow> cursor_of b' = cursor_of b"
  by (auto simp: ClearAllCounters_def and_then_eq_Done dest!: modify_card_Done)

lemma ClearAllCounters_Threw [simp]: "ClearAllCounters r b \<noteq> Threw e b'"
  by (auto simp: ClearAllCounters_def and_then_eq_Threw)

lemma code_pos_AddOrNext_Done: "code_pos_AddOrNext r cd ps b = Done x b' \<Longrightarrow> cursor_of b' = cursor_of b"
  by (auto simp: code_pos_AddOrNext_def and_then_eq_Done dest!: modify_card_Done)

lemma code_pos_AddOrNext_Threw [simp]: "code_pos_AddOrNext r cd ps b \<noteq> Threw e b'"
  by (auto simp: code_pos_AddOrNext_def and_then_eq_Threw)

lemma code_pos_Prev_Done: "code_pos_Prev r b = Done x b' \<Longrightarrow> cursor_of b' = cursor_of b"
  by (auto simp: code_pos_Prev_def and_then_eq_Done dest!: modify_card_Done)

lemma code_pos_Prev_Threw [simp]: "code_pos_Prev r b \<noteq> Threw e b'"
  by (auto simp: code_pos_Prev_def and_then_eq_Threw)

lemma MoveSingle_Done: "MoveSingle L from to b = Done r b' \<Longrightarrow> cursor_of b' = cursor_of b"
  by (auto simp: MoveSingle_def and_then_eq_Done Let_def split: if_splits
      dest!: GetPile_place_Done pile_card_Done ClearAllCounters_Done)

lemma MoveSingle_Threw: "MoveSingle L from to b = Threw e b' \<Longrightarrow> b' = b"
  by (auto simp: MoveSingle_def and_then_eq_Threw Let_def split: if_splits
      dest!: GetPile_place_Done GetPile_place_Threw)


lemma for_range_invariant:
  assumes "for_range f is s = Some s'" and "\<And>i s s1. f i s = Some s1 \<Longrightarrow> g s1 = g s"
  shows "g s' = g s"
  using assms(1)
proof (induction "is" arbitrary: s)
  case Nil
  then show ?case by simp
next
  case (Cons i "is")
  then show ?case by (auto split: option.splits dest: assms(2))
qed

lemma field_step_cursor: "field_step place f b = Some b1 \<Longrightarrow> cursor_of b1 = cursor_of b"
  by (auto simp: field_step_def)

lemma for_each_keys:
  "for_each (entry_step f) zs = Some zs' \<Longrightarrow> map fst zs' = map fst zs"
  by (induction zs arbitrary: zs') (auto simp: entry_step_def split: option.splits)

lemma for_each_keys':
  "for_each (\<lambda>z. entry_step (f z) z) zs = Some zs' \<Longrightarrow> map fst zs' = map fst zs"
  by (induction zs arbitrary: zs') (auto simp: entry_step_def split: option.splits)

lemma HandleUpdateCard_Done:
  "HandleUpdateCard L reason p c b = Done x b' \<Longrightarrow> cursor_of b' = cursor_of b"
  by (auto simp: HandleUpdateCard_def and_then_eq_Done split: if_splits
      dest!: GetPile_place_Done deck_top_card_Done modify_card_Done MoveSingle_Done
        code_pos_AddOrNext_Done code_pos_Prev_Done GetCard_Done)

lemma HandleUpdateCard_Threw:
  "HandleUpdateCard L reason p c b = Threw e b' \<Longrightarrow> cursor_of b' = cursor_of b"
  by (auto simp: HandleUpdateCard_def and_then_eq_Threw split: if_splits
      dest!: GetPile_place_Done GetPile_place_Threw deck_top_card_Done MoveSingle_Threw
        MoveSingle_Done code_pos_Prev_Done GetCard_Done GetCard_Threw)

lemma HandleAddCard_Done:
  "HandleAddCard L c b = Done x b' \<Longrightarrow> cursor_of b' = cursor_of b"
  by (auto simp: HandleAddCard_def and_then_eq_Done Let_def split: if_splits
      dest!: GetPile_place_Done pile_card_Done code_pos_AddOrNext_Done code_pos_Prev_Done)

lemma HandleAddCard_Threw:
  "HandleAddCard L c b = Threw e b' \<Longrightarrow> b' = b"
  by (auto simp: HandleAddCard_def and_then_eq_Threw Let_def split: if_splits
      dest!: GetPile_place_Done GetPile_place_Threw pile_card_Done)

lemma HandleRemoveCard_Done:
  "HandleRemoveCard L c b = Done x b' \<Longrightarrow> cursor_of b' = cursor_of b"
  by (auto simp: HandleRemoveCard_def and_then_eq_Done Let_def split: if_splits
      dest!: GetPile_place_Done)

lemma HandleRemoveCard_Threw:
  "HandleRemoveCard L c b = Threw e b' \<Longrightarrow> b' = b"
  by (auto simp: HandleRemoveCard_def and_then_eq_Threw Let_def split: if_splits
      dest!: GetPile_place_Done GetPile_place_Threw)

lemma HandleDraw_Done:
  "HandleDraw player cards b = Done x b' \<Longrightarrow> cursor_of b' = cursor_of b"
  by (auto simp: HandleDraw_def Let_def cursor_of_def split: if_splits option.splits)

lemma HandleDraw_Threw [simp]: "HandleDraw player cards b \<noteq> Threw e b'"
  by (auto simp: HandleDraw_def Let_def split: if_splits option.splits)

lemma SwapCards_take_Done: "SwapCards_take L place b = Done x b' \<Longrightarrow> cursor_of b' = cursor_of b"
  by (auto simp: SwapCards_take_def and_then_eq_Done split: if_splits dest!: GetPile_place_Done)

lemma SwapCards_take_Threw: "SwapCards_take L place b = Threw e b' \<Longrightarrow> b' = b"
  by (auto simp: SwapCards_take_def and_then_eq_Threw split: if_splits
      dest!: GetPile_place_Done GetPile_place_Threw)

lemma HandleSwapCards_Done:
  "HandleSwapCards L c1 c2 b = Done x b' \<Longrightarrow> cursor_of b' = cursor_of b"
  by (auto simp: HandleSwapCards_def and_then_eq_Done Let_def split: if_splits
      dest!: GetPile_place_Done MoveSingle_Done SwapCards_take_Done)

lemma HandleSwapCards_Threw:
  "HandleSwapCards L c1 c2 b = Threw e b' \<Longrightarrow> cursor_of b' = cursor_of b"
  by (auto simp: HandleSwapCards_def and_then_eq_Threw and_then_eq_Done Let_def split: if_splits
      dest!: GetPile_place_Done GetPile_place_Threw MoveSingle_Done MoveSingle_Threw
        SwapCards_take_Done SwapCards_take_Threw)

lemma HandleShuffleLocation_Done:
  "HandleShuffleLocation L player loc cs b = Done x b' \<Longrightarrow> cursor_of b' = cursor_of b"
  by (auto simp: HandleShuffleLocation_def and_then_eq_Done defined_eq_Done split: if_splits
      dest!: GetPile_Done)

lemma HandleShuffleLocation_Threw:
  "HandleShuffleLocation L player loc cs b = Threw e b' \<Longrightarrow> b' = b"
  by (auto simp: HandleShuffleLocation_def and_then_eq_Threw defined_eq_Done split: if_splits
      dest!: GetPile_Done GetPile_Threw)

lemma HandleShuffleSetCards_Done:
  "HandleShuffleSetCards L ps cs b = Done x b' \<Longrightarrow> cursor_of b' = cursor_of b"
  by (auto simp: HandleShuffleSetCards_def and_then_eq_Done defined_eq_Done Let_def
      split: if_splits option.splits elim!: for_range_invariant dest!: field_step_cursor)

lemma HandleShuffleSetCards_Threw [simp]: "HandleShuffleSetCards L ps cs b \<noteq> Threw e b'"
  by (auto simp: HandleShuffleSetCards_def and_then_eq_Threw split: if_splits)

lemma AddCounter_Done: "AddCounter L place cn b = Done x b' \<Longrightarrow> cursor_of b' = cursor_of b"
  by (auto simp: AddCounter_def and_then_eq_Done dest!: GetCard_Done modify_card_Done)

lemma AddCounter_Threw: "AddCounter L place cn b = Threw e b' \<Longrightarrow> b' = b"
  by (auto simp: AddCounter_def and_then_eq_Threw dest!: GetCard_Threw)

lemma RemoveCounter_Done: "RemoveCounter L place cn b = Done x b' \<Longrightarrow> cursor_of b' = cursor_of b"
  by (auto simp: RemoveCounter_def and_then_eq_Done dest!: GetCard_Done modify_card_Done)

lemma RemoveCounter_Threw: "RemoveCounter L place cn b = Threw e b' \<Longrightarrow> b' = b"
  by (auto simp: RemoveCounter_def and_then_eq_Threw dest!: GetCard_Threw)

lemma HandleCounterChange_Done:
  "HandleCounterChange L ty pl cn b = Done x b' \<Longrightarrow> cursor_of b' = cursor_of b"
  by (auto simp: HandleCounterChange_def Let_def split: if_splits
      dest!: AddCounter_Done RemoveCounter_Done)

lemma HandleCounterChange_Threw:
  "HandleCounterChange L ty pl cn b = Threw e b' \<Longrightarrow> b' = b"
  by (auto simp: HandleCounterChange_def Let_def split: if_splits
      dest!: AddCounter_Threw RemoveCounter_Threw)

lemma HandleDisableZones_Done:
  "HandleDisableZones places b = Done x b' \<Longrightarrow> cursor_of b' = cursor_of b"
  by (auto simp: HandleDisableZones_def and_then_eq_Done defined_eq_Done cursor_of_def
      zones_sync_def zones_append_def split: if_splits dest!: for_each_keys for_each_keys')

lemma HandleDisableZones_Threw [simp]: "HandleDisableZones places b \<noteq> Threw e b'"
  by (auto simp: HandleDisableZones_def and_then_eq_Threw and_then_eq_Done split: if_splits)

lemma HandleLpChange_Done:
  "HandleLpChange player ty amount b = Done x b' \<Longrightarrow> cursor_of b' = cursor_of b"
  by (auto simp: HandleLpChange_def and_then_eq_Done defined_eq_Done Let_def split: if_splits)

lemma HandleLpChange_Threw [simp]: "HandleLpChange player ty amount b \<noteq> Threw e b'"
  by (auto simp: HandleLpChange_def and_then_eq_Threw Let_def split: if_splits)

lemma HandleNewTurn_Done: "HandleNewTurn tp b = Done x b' \<Longrightarrow> cursor_of b' = cursor_of b"
  by (auto simp: HandleNewTurn_def and_then_eq_Done defined_eq_Done cursor_of_def split: if_splits)

lemma HandleNewTurn_Threw [simp]: "HandleNewTurn tp b \<noteq> Threw e b'"
  by (auto simp: HandleNewTurn_def and_then_eq_Threw split: if_splits)

lemma HandleNewPhase_Done: "HandleNewPhase ph b = Done x b' \<Longrightarrow> cursor_of b' = cursor_of b"
  by (auto simp: HandleNewPhase_def and_then_eq_Done defined_eq_Done)

lemma HandleNewPhase_Threw [simp]: "HandleNewPhase ph b \<noteq> Threw e b'"
  by (auto simp: HandleNewPhase_def and_then_eq_Threw)

lemma InterpretMsg_cursor:
  assumes "InterpretMsg L msg b = Done x b' \<or> InterpretMsg L msg b = Threw e b'"
  shows "cursor_of b' = cursor_of b"
proof (cases msg)
  case OtherMsg
  then show ?thesis using assms by auto
next
  case (InformationMsg info)
  then show ?thesis using assms
    by (cases info)
      (auto dest: HandleUpdateCard_Done HandleUpdateCard_Threw HandleAddCard_Done
        HandleAddCard_Threw HandleRemoveCard_Done HandleRemoveCard_Threw HandleDraw_Done
        HandleSwapCards_Done HandleSwapCards_Threw HandleShuffleLocation_Done
        HandleShuffleLocation_Threw HandleShuffleSetCards_Done HandleCounterChange_Done
        HandleCounterChange_Threw HandleDisableZones_Done HandleLpChange_Done
        HandleNewTurn_Done HandleNewPhase_Done)
qed

section \<open>The cursor (C9)\<close>

lemma cursor_of_eqD:
  assumes "cursor_of b' = cursor_of b"
  shows "state b' = state b" "processedState b' = processedState b" "msgs b' = msgs b"
    "realtime b' = realtime b" "advancing b' = advancing b"
    "map fst (disabledZones b') = map fst (disabledZones b)"
  using assms by (simp_all add: cursor_of_def)

lemma FillPile_cursor:
  assumes "FillPile L c loc num b = Done x b' \<or> FillPile L c loc num b = Threw e b'"
  shows "cursor_of b' = cursor_of b"
  using assms
  by (auto simp: FillPile_def and_then_eq_Done and_then_eq_Threw defined_eq_Done split: if_splits
      dest!: GetPile_Done GetPile_Threw)

lemma SetLP_cursor:
  assumes "SetLP c lp b = Done x b'"
  shows "cursor_of b' = cursor_of b"
  using assms
  by (auto simp: SetLP_def and_then_eq_Done defined_eq_Done split: if_splits)

lemma Forward_result:
  assumes "unat (state b) < length (msgs b)"
  shows "Forward L b = Done x b' \<Longrightarrow>
      state b' = state b + 1 \<and> msgs b' = msgs b \<and>
      processedState b' = (if state b = processedState b then processedState b + 1
                           else processedState b)"
    and "Forward L b = Threw e b' \<Longrightarrow>
      state b' = state b \<and> msgs b' = msgs b \<and>
      processedState b' = (if state b = processedState b then processedState b + 1
                           else processedState b)"
proof -
  let ?m = "msgs b ! unat (state b)"
  {
    assume "Forward L b = Done x b'"
    then obtain y b1 where i: "InterpretMsg L ?m (forward_entry b) = Done y b1"
      and b': "b' = b1\<lparr>state := state b1 + 1\<rparr>"
      unfolding Forward_step [OF assms] by (auto simp: and_then_eq_Done)
    have "cursor_of b1 = cursor_of (forward_entry b)"
      using i by (intro InterpretMsg_cursor) auto
    note c = cursor_of_eqD [OF this]
    show "state b' = state b + 1 \<and> msgs b' = msgs b \<and>
      processedState b' = (if state b = processedState b then processedState b + 1
                           else processedState b)"
      using c(1-3) by (simp add: b' forward_entry_def)
  }
  {
    assume "Forward L b = Threw e b'"
    then have i: "InterpretMsg L ?m (forward_entry b) = Threw e b'"
      unfolding Forward_step [OF assms] by (auto simp: and_then_eq_Threw)
    have "cursor_of b' = cursor_of (forward_entry b)"
      using i by (intro InterpretMsg_cursor) auto
    note c = cursor_of_eqD [OF this]
    show "state b' = state b \<and> msgs b' = msgs b \<and>
      processedState b' = (if state b = processedState b then processedState b + 1
                           else processedState b)"
      using c(1-3) by (simp add: forward_entry_def)
  }
qed

lemma Backward_result:
  assumes "state b \<noteq> 0"
    and "Backward L b = Done x b' \<or> Backward L b = Threw e b'"
  shows "state b' = state b - 1 \<and> msgs b' = msgs b \<and> processedState b' = processedState b"
proof -
  have lt: "unat (state b - 1) < length (msgs b)"
    using assms by (auto simp: Backward_def Let_def not_le split: if_splits)
  have "InterpretMsg L (msgs b ! unat (state b - 1)) (backward_entry b) = Done x b' \<or>
        InterpretMsg L (msgs b ! unat (state b - 1)) (backward_entry b) = Threw e b'"
    using assms(2) unfolding Backward_step [OF assms(1) lt] .
  then have "cursor_of b' = cursor_of (backward_entry b)" by (rule InterpretMsg_cursor)
  note c = cursor_of_eqD [OF this]
  show ?thesis using c(1-3) by (simp add: backward_entry_def)
qed

lemma unat_pred:
  fixes s :: u32
  assumes "s \<noteq> 0"
  shows "unat (s - 1) = unat s - 1"
  using assms by (simp add: unat_minus_one)

lemma Forward_cursor_inv:
  assumes inv: "cursor_inv b" and len: "length (msgs b) < 2 ^ 32"
    and fw: "Forward L b = Done x b' \<or> Forward L b = Threw e b'"
  shows "cursor_inv b' \<and> processedState b \<le> processedState b' \<and> msgs b' = msgs b"
proof (cases "unat (state b) < length (msgs b)")
  case False
  then have "Forward L b = Done () b" by (intro Forward_noop) simp
  then have "b' = b" using fw by auto
  then show ?thesis using inv by simp
next
  case True
  note s = state_succ [OF True len]
  have le: "unat (state b) \<le> unat (processedState b)" "unat (processedState b) \<le> length (msgs b)"
    using inv by (simp_all add: cursor_inv_def word_le_nat_alt)
  let ?p = "if state b = processedState b then processedState b + 1 else processedState b"
  have p: "unat ?p \<le> length (msgs b)" "unat (state b) + 1 \<le> unat ?p"
    "unat (processedState b) \<le> unat ?p"
  proof -
    show "unat ?p \<le> length (msgs b)" using s(1) True le by auto
    show "unat (state b) + 1 \<le> unat ?p"
    proof (cases "state b = processedState b")
      case True
      then show ?thesis using s(1) by auto
    next
      case False
      then have "unat (state b) \<noteq> unat (processedState b)" by (simp add: word_unat_eq_iff)
      then show ?thesis using le False by auto
    qed
    show "unat (processedState b) \<le> unat ?p" using s(1) by auto
  qed
  from fw show ?thesis
  proof
    assume "Forward L b = Done x b'"
    from Forward_result(1) [OF True this] s p True show ?thesis
      by (simp add: cursor_inv_def word_le_nat_alt)
  next
    assume "Forward L b = Threw e b'"
    from Forward_result(2) [OF True this] s p True show ?thesis
      by (simp add: cursor_inv_def word_le_nat_alt)
  qed
qed

lemma Backward_cursor_inv:
  assumes inv: "cursor_inv b"
    and bw: "Backward L b = Done x b' \<or> Backward L b = Threw e b'"
  shows "cursor_inv b' \<and> processedState b' = processedState b \<and> msgs b' = msgs b"
proof (cases "state b = 0")
  case True
  then have "Backward L b = Done () b" by (simp add: Backward_def)
  then have "b' = b" using bw by auto
  then show ?thesis using inv by simp
next
  case False
  from Backward_result [OF False bw] unat_pred [OF False] inv show ?thesis
    by (auto simp: cursor_inv_def word_le_nat_alt)
qed

lemma AppendMsg_cursor_inv:
  assumes "cursor_inv b"
  shows "cursor_inv (AppendMsg m b)"
  using assms by (auto simp: cursor_inv_def AppendMsg_def)

lemma reachable_cursor_inv:
  assumes "reachable L b"
  shows "length (msgs b) < 2 ^ 32 \<longrightarrow> cursor_inv b"
  using assms
proof (induction rule: reachable.induct)
  case (init b)
  then show ?case using DuelBoard_init_fields [OF init] by (simp add: cursor_inv_def)
next
  case (append b msg)
  then show ?case by (auto simp: AppendMsg_def intro!: AppendMsg_cursor_inv [unfolded AppendMsg_def])
next
  case (forward b b')
  show ?case
  proof
    assume l: "length (msgs b') < 2 ^ 32"
    have m: "msgs b' = msgs b"
    proof (cases "unat (state b) < length (msgs b)")
      case True
      then show ?thesis using Forward_result(1) [OF True forward(2)] by simp
    next
      case False
      then have "Forward L b = Done () b" by (intro Forward_noop) simp
      then show ?thesis using forward(2) by simp
    qed
    then have "cursor_inv b" "length (msgs b) < 2 ^ 32" using forward.IH l by simp_all
    then show "cursor_inv b'" using Forward_cursor_inv [of b L "()" b'] forward(2) by simp
  qed
next
  case (forward_threw b e b')
  show ?case
  proof
    assume l: "length (msgs b') < 2 ^ 32"
    have m: "msgs b' = msgs b"
    proof (cases "unat (state b) < length (msgs b)")
      case True
      then show ?thesis using Forward_result(2) [OF True forward_threw(2)] by simp
    next
      case False
      then have "Forward L b = Done () b" by (intro Forward_noop) simp
      then show ?thesis using forward_threw(2) by simp
    qed
    then have "cursor_inv b" "length (msgs b) < 2 ^ 32" using forward_threw.IH l by simp_all
    then show "cursor_inv b'" using Forward_cursor_inv [of b L _ b' e] forward_threw(2) by simp
  qed
next
  case (backward b b')
  show ?case
  proof
    assume l: "length (msgs b') < 2 ^ 32"
    have m: "msgs b' = msgs b"
    proof (cases "state b = 0")
      case True
      then have "Backward L b = Done () b" by (simp add: Backward_def)
      then show ?thesis using backward(2) by simp
    next
      case False
      then show ?thesis using Backward_result [OF False, of L "()" b'] backward(2) by simp
    qed
    then have "cursor_inv b" using backward.IH l by simp
    then show "cursor_inv b'" using Backward_cursor_inv [of b L "()" b'] backward(2) by simp
  qed
next
  case (backward_threw b e b')
  show ?case
  proof
    assume l: "length (msgs b') < 2 ^ 32"
    have m: "msgs b' = msgs b"
    proof (cases "state b = 0")
      case True
      then have "Backward L b = Done () b" by (simp add: Backward_def)
      then show ?thesis using backward_threw(2) by simp
    next
      case False
      then show ?thesis using Backward_result [OF False, of L _ b' e] backward_threw(2) by simp
    qed
    then have "cursor_inv b" using backward_threw.IH l by simp
    then show "cursor_inv b'" using Backward_cursor_inv [of b L _ b' e] backward_threw(2) by simp
  qed
next
  case (fill_pile b controller location num b')
  from FillPile_cursor [of L controller location num b "()" b'] fill_pile(2)
  have "cursor_of b' = cursor_of b" by simp
  note c = cursor_of_eqD [OF this]
  show ?case using fill_pile.IH c(1-3) by (simp add: cursor_inv_def)
next
  case (fill_pile_threw b controller location num e b')
  from FillPile_cursor [of L controller location num b _ b' e] fill_pile_threw(2)
  have "cursor_of b' = cursor_of b" by simp
  note c = cursor_of_eqD [OF this]
  show ?case using fill_pile_threw.IH c(1-3) by (simp add: cursor_inv_def)
next
  case (set_lp b controller lp b')
  from SetLP_cursor [OF set_lp(2)]
  have "cursor_of b' = cursor_of b" by simp
  note c = cursor_of_eqD [OF this]
  show ?case using set_lp.IH c(1-3) by (simp add: cursor_inv_def)
qed

text \<open>
  C9. On a log shorter than \<open>2^32\<close> messages (the cursor is a \<open>uint32_t\<close>): every
  reachable board satisfies the cursor invariant
  \<open>0 \<le> state \<le> len(msgs)\<close>, \<open>state \<le> processedState \<le> len(msgs)\<close>; \<open>Forward\<close>,
  \<open>Backward\<close> (whether they return or throw) and \<open>AppendMsg\<close> keep it;
  \<open>processedState\<close> never decreases. \<open>Forward\<close> is a no-op when the log is empty or
  \<open>state > len(msgs) - 1\<close>; otherwise, when it returns, \<open>state\<close> is one more, and
  \<open>processedState\<close> is one more exactly when it was equal to \<open>state\<close>.
  \<open>Backward\<close> is a no-op at \<open>state = 0\<close>; otherwise, when it returns, \<open>state\<close> is one less.
\<close>

theorem C9_cursor_invariants:
  assumes len: "length (msgs b) < 2 ^ 32"
  shows "(reachable L b \<longrightarrow> cursor_inv b) \<and>
     (cursor_inv b \<longrightarrow>
        (\<forall>b' e. Forward L b = Done () b' \<or> Forward L b = Threw e b' \<longrightarrow>
           cursor_inv b' \<and> processedState b \<le> processedState b' \<and> msgs b' = msgs b) \<and>
        (\<forall>b' e. Backward L b = Done () b' \<or> Backward L b = Threw e b' \<longrightarrow>
           cursor_inv b' \<and> processedState b' = processedState b \<and> msgs b' = msgs b) \<and>
        (\<forall>m. cursor_inv (AppendMsg m b) \<and> state (AppendMsg m b) = state b \<and>
           processedState (AppendMsg m b) = processedState b) \<and>
        (msgs b = [] \<or> length (msgs b) - 1 < unat (state b) \<longrightarrow> Forward L b = Done () b) \<and>
        (\<forall>b'. \<not> (msgs b = [] \<or> length (msgs b) - 1 < unat (state b)) \<and>
           Forward L b = Done () b' \<longrightarrow>
             unat (state b') = unat (state b) + 1 \<and>
             unat (processedState b') =
               (if state b = processedState b then unat (processedState b) + 1
                else unat (processedState b))) \<and>
        (state b = 0 \<longrightarrow> Backward L b = Done () b) \<and>
        (\<forall>b'. state b \<noteq> 0 \<and> Backward L b = Done () b' \<longrightarrow>
           unat (state b') = unat (state b) - 1))"
proof (intro conjI impI allI)
  assume "reachable L b"
  then show "cursor_inv b" using reachable_cursor_inv len by blast
next
  fix b' e
  assume "cursor_inv b" "Forward L b = Done () b' \<or> Forward L b = Threw e b'"
  then have r: "cursor_inv b' \<and> processedState b \<le> processedState b' \<and> msgs b' = msgs b"
    using len by (intro Forward_cursor_inv)
  from r show "cursor_inv b'" by simp
  from r show "processedState b \<le> processedState b'" by simp
  from r show "msgs b' = msgs b" by simp
next
  fix b' e
  assume "cursor_inv b" "Backward L b = Done () b' \<or> Backward L b = Threw e b'"
  then have r: "cursor_inv b' \<and> processedState b' = processedState b \<and> msgs b' = msgs b"
    by (intro Backward_cursor_inv)
  from r show "cursor_inv b'" by simp
  from r show "processedState b' = processedState b" by simp
  from r show "msgs b' = msgs b" by simp
next
  fix m
  assume "cursor_inv b"
  then show "cursor_inv (AppendMsg m b)" by (rule AppendMsg_cursor_inv)
  show "state (AppendMsg m b) = state b" by (simp add: AppendMsg_def)
  show "processedState (AppendMsg m b) = processedState b" by (simp add: AppendMsg_def)
next
  assume "msgs b = [] \<or> length (msgs b) - 1 < unat (state b)"
  then have "length (msgs b) \<le> unat (state b)" by auto
  then show "Forward L b = Done () b" by (rule Forward_noop)
next
  fix b'
  assume a: "\<not> (msgs b = [] \<or> length (msgs b) - 1 < unat (state b)) \<and> Forward L b = Done () b'"
  then have lt: "unat (state b) < length (msgs b)" by (cases "msgs b") auto
  note s = state_succ [OF lt len]
  from a have fw: "Forward L b = Done () b'" by simp
  note r = Forward_result(1) [OF lt fw]
  show "unat (state b') = unat (state b) + 1" using r s by simp
  assume "cursor_inv b"
  then have "unat (processedState b) \<le> length (msgs b)" by (simp add: cursor_inv_def)
  then show "unat (processedState b') =
      (if state b = processedState b then unat (processedState b) + 1 else unat (processedState b))"
    using r s by auto
next
  assume "state b = 0"
  then show "Backward L b = Done () b" by (simp add: Backward_def)
next
  fix b'
  assume a: "state b \<noteq> 0 \<and> Backward L b = Done () b'"
  then have "state b' = state b - 1" using Backward_result [of b L "()" b'] by simp
  then show "unat (state b') = unat (state b) - 1" using a unat_pred by simp
qed


text \<open>The instance: one \<open>NewPhase\<close> message on the fresh board, stepped forward and
  backward.\<close>

theorem C9_cursor_invariants_witness:
  "\<exists>b0 b b1 b2. DuelBoard_init example_enums = Some b0 \<and>
     b = AppendMsg (InformationMsg (NewPhase 1)) b0 \<and>
     length (msgs b) < 2 ^ 32 \<and> reachable example_enums b \<and> cursor_inv b \<and>
     \<not> (msgs b = [] \<or> length (msgs b) - 1 < unat (state b)) \<and>
     Forward example_enums b = Done () b1 \<and> cursor_inv b1 \<and>
     unat (state b1) = 1 \<and> unat (processedState b1) = 1 \<and> state b1 \<noteq> 0 \<and>
     Backward example_enums b1 = Done () b2 \<and> cursor_inv b2 \<and>
     unat (state b2) = 0 \<and> processedState b2 = processedState b1"
proof -
  obtain b0 where b0: "DuelBoard_init example_enums = Some b0"
    using DuelBoard_init_defined by blast
  note f = DuelBoard_init_fields [OF b0]
  define b where "b = AppendMsg (InformationMsg (NewPhase 1)) b0"
  have hb: "msgs b = [InformationMsg (NewPhase 1)]" "state b = 0" "processedState b = 0"
    "phase b = Sequential_init 0"
    by (simp_all add: b_def AppendMsg_def f)
  have len: "length (msgs b) < 2 ^ 32" by (simp add: hb)
  have re: "reachable example_enums b"
    unfolding b_def by (intro reachable.append reachable.init b0)
  note t = C9_cursor_invariants [OF len, of example_enums]
  have inv: "cursor_inv b" using t re by blast
  define b1 where "b1 = (forward_entry b)\<lparr>phase := \<lparr>seq_l = [0, 1], seq_it = Suc 0\<rparr>, state := 1\<rparr>"
  have fw: "Forward example_enums b = Done () b1"
    by (simp add: Forward_step hb forward_entry_def HandleNewPhase_def AddOrNext_def
        Sequential_init_def b1_def)
  have g: "\<not> (msgs b = [] \<or> length (msgs b) - 1 < unat (state b))" by (simp add: hb)
  have i1: "cursor_inv b1" using t inv fw by blast
  have s1: "unat (state b1) = unat (state b) + 1"
    "unat (processedState b1) =
       (if state b = processedState b then unat (processedState b) + 1 else unat (processedState b))"
    using t inv fw g by blast+
  have h1: "msgs b1 = [InformationMsg (NewPhase 1)]" "state b1 = 1"
    "phase b1 = \<lparr>seq_l = [0, 1], seq_it = Suc 0\<rparr>"
    by (simp_all add: b1_def forward_entry_def hb)
  define b2 where "b2 = (backward_entry b1)\<lparr>phase := \<lparr>seq_l = [0, 1], seq_it = 0\<rparr>\<rparr>"
  have bw: "Backward example_enums b1 = Done () b2"
    by (simp add: Backward_step h1 backward_entry_def HandleNewPhase_def Prev_def b2_def)
  have len1: "length (msgs b1) < 2 ^ 32" by (simp add: h1)
  note t1 = C9_cursor_invariants [OF len1, of example_enums]
  have n1: "state b1 \<noteq> 0" by (simp add: h1)
  have i2: "cursor_inv b2" "processedState b2 = processedState b1"
    using t1 i1 bw by blast+
  have s2: "unat (state b2) = unat (state b1) - 1" using t1 i1 bw n1 by blast
  have u1: "unat (state b1) = 1" "unat (processedState b1) = 1" using s1 hb by simp_all
  have u2: "unat (state b2) = 0" using s2 u1 by simp
  have eq: "b = AppendMsg (InformationMsg (NewPhase 1)) b0" by (simp add: b_def)
  show ?thesis
    using b0 eq len re inv g fw i1 u1 n1 bw i2 u2 by blast
qed

section \<open>Handlers that throw (C3)\<close>

lemma MoveSingle_same_place: "MoveSingle L place place b = Threw IllegalMove b"
  by (simp add: MoveSingle_def)

lemma GetPile_place_Threw_any:
  "GetPile_place L place b = Threw e b' \<Longrightarrow> GetPile_place L place b1 = Done p b2 \<Longrightarrow> False"
  by (auto simp: GetPile_place_def GetPile_def pile_ref_def split: if_splits)

lemma MoveSingle_from_pile:
  assumes "MoveSingle L from to b = Done r b'" "IsPile L from"
  shows "\<exists>q b3. GetPile_place L from b = Done q b3"
proof (cases "GetPile_place L from b")
  case (Done q b3)
  then show ?thesis by blast
next
  case (Threw e b3)
  then show ?thesis using assms by (auto simp: MoveSingle_def split: if_splits)
next
  case Undefined
  then show ?thesis using assms by (auto simp: MoveSingle_def split: if_splits)
qed

lemma HandleUpdateCard_Threw_atomic:
  assumes "HandleUpdateCard L reason p c b = Threw e b'"
    and "advancing b \<or> reason \<noteq> REASON_MOVE"
  shows "b' = b"
  using assms
  by (auto simp: HandleUpdateCard_def and_then_eq_Threw split: if_splits
      dest!: GetPile_place_Done GetPile_place_Threw deck_top_card_Done MoveSingle_Threw
        GetCard_Threw)

lemma HandleUpdateCard_MOVE_backward_Threw:
  assumes "HandleUpdateCard L REASON_MOVE p c b = Threw e b'" and "\<not> advancing b"
  shows "b' = b \<or>
     (\<exists>r b1. GetCard L (PlaceFromCardInfo L c) b = Done r b1 \<and> code_pos_Prev r b1 = Done () b')"
  using assms
  by (auto simp: HandleUpdateCard_def and_then_eq_Threw
      dest!: MoveSingle_Threw GetCard_Threw)

lemma HandleSwapCards_Threw_board:
  assumes "HandleSwapCards L c1 c2 b = Threw e b'"
  shows "b' = b \<or> (\<exists>tmp. SwapCards_take L (PlaceFromCardInfo L c1) b = Done tmp b')"
proof -
  let ?p1 = "PlaceFromCardInfo L c1" and ?p2 = "PlaceFromCardInfo L c2"
  from assms consider
    (a) "SwapCards_take L ?p1 b = Threw e b'"
  | (b) tmp b1 where "SwapCards_take L ?p1 b = Done tmp b1" "MoveSingle L ?p2 ?p1 b1 = Threw e b'"
  | (c) tmp b1 r b2 where "SwapCards_take L ?p1 b = Done tmp b1" "MoveSingle L ?p2 ?p1 b1 = Done r b2"
      "IsPile L ?p2" "GetPile_place L ?p2 b2 = Threw e b'"
    by (auto simp: HandleSwapCards_def Let_def and_then_eq_Threw split: if_splits
        dest!: GetPile_place_Done)
  then show ?thesis
  proof cases
    case a
    then show ?thesis by (auto dest: SwapCards_take_Threw)
  next
    case b
    then show ?thesis by (auto dest: MoveSingle_Threw)
  next
    case c
    have "?p2 \<noteq> ?p1" using c(2) by (auto simp: MoveSingle_def)
    from MoveSingle_from_pile [OF c(2,3)] obtain q b3 where
      "GetPile_place L ?p2 b1 = Done q b3" by blast
    then show ?thesis using c(4) GetPile_place_Threw_any by blast
  qed
qed

lemma InterpretMsg_Threw_atomic:
  assumes "InterpretMsg L msg b = Threw e b'"
    and "\<forall>c1 c2. msg \<noteq> InformationMsg (SwapCards c1 c2)"
    and "advancing b \<or> (\<forall>p c. msg \<noteq> InformationMsg (UpdateCard REASON_MOVE p c))"
  shows "b' = b"
proof (cases msg)
  case OtherMsg
  then show ?thesis using assms by auto
next
  case (InformationMsg info)
  then show ?thesis using assms
    by (cases info)
      (auto dest: HandleUpdateCard_Threw_atomic HandleAddCard_Threw HandleRemoveCard_Threw
        HandleShuffleLocation_Threw HandleCounterChange_Threw)
qed

text \<open>
  C3 (as amended). \<open>MoveSingle\<close> throws before it changes anything (with \<open>from = to\<close> it
  throws at once), and every handler other than \<open>SwapCards\<close> and the backward branch of
  \<open>UpdateCard\<close> with reason \<open>MOVE\<close> leaves the board as it was when it throws.
  \<open>SwapCards\<close> takes card 1 out of its slot before it calls \<open>MoveSingle\<close>: when it
  throws, the board is unchanged or is the board without that card. The backward branch of
  \<open>UpdateCard\<close>/\<open>MOVE\<close> retreats the code and position cells of the card at \<open>current\<close>
  before it calls \<open>MoveSingle\<close>: when it throws, the board is unchanged or is the board
  after that retreat.
\<close>

theorem C3_handlers_on_throw:
  "(from = to \<longrightarrow> MoveSingle L from to b = Threw IllegalMove b) \<and>
   (MoveSingle L from to b = Threw e b' \<longrightarrow> b' = b) \<and>
   (InterpretMsg L msg b = Threw e b' \<and>
      (\<forall>c1 c2. msg \<noteq> InformationMsg (SwapCards c1 c2)) \<and>
      (advancing b \<or> (\<forall>p c. msg \<noteq> InformationMsg (UpdateCard REASON_MOVE p c)))
      \<longrightarrow> b' = b) \<and>
   (HandleSwapCards L c1 c2 b = Threw e b' \<longrightarrow>
      b' = b \<or> (\<exists>tmp. SwapCards_take L (PlaceFromCardInfo L c1) b = Done tmp b')) \<and>
   (HandleUpdateCard L REASON_MOVE p c b = Threw e b' \<and> \<not> advancing b \<longrightarrow>
      b' = b \<or> (\<exists>r b1. GetCard L (PlaceFromCardInfo L c) b = Done r b1 \<and>
                   code_pos_Prev r b1 = Done () b'))"
  using MoveSingle_same_place [of L to b] MoveSingle_Threw [of L "from" to b e b']
    InterpretMsg_Threw_atomic [of L msg b e b'] HandleSwapCards_Threw_board [of L c1 c2 b e b']
    HandleUpdateCard_MOVE_backward_Threw [of L p c b e b']
  by blast

lemma example_hand_place:
  "PlaceFromCardInfo example_enums example_hand_card = (0, 2, 0, - 1)"
  "IsPile example_enums (0, 2, 0, - 1)"
  "GetPile_place example_enums (0, 2, 0, - 1) b = Done (PHand, 0) b"
  "place_sequence (0, 2, 0, - 1) = 0"
  by (simp_all add: PlaceFromCardInfo_def example_hand_card_def example_enums_def IsPile_def
      IsPile_location_def GetPile_place_def GetPile_def pile_ref_def place_sequence_def)

lemma pile_hand_0 [simp]: "pile b (PHand, 0) = fst (hand b)"
  by (simp add: pile_def arr_at_def)

lemma set_pile_hand_0 [simp]: "set_pile b (PHand, 0) xs = b\<lparr>hand := (xs, snd (hand b))\<rparr>"
  by (simp add: set_pile_def arr_upd_def)

lemma FillPile_example_hand:
  assumes "hand b = ([], [])"
  shows "FillPile example_enums 0 2 1 b =
     Done () (b\<lparr>hand := ([Card_init\<lparr>pos := \<lparr>seq_l = [0, 10], seq_it = Suc 0\<rparr>\<rparr>], [])\<rparr>)"
  using assms
  by (simp add: FillPile_def GetPile_def pile_ref_def example_enums_def resize_def pos_step_def
      AddOrNext_def Card_init_def Sequential_init_def)

text \<open>The claim as written fails: one card in the hand of player 0, and a \<open>SwapCards\<close>
  message whose two cards are that card. \<open>Forward\<close> throws \<open>IllegalMove\<close>, and the hand
  is empty at the throw.\<close>

theorem C3_handlers_on_throw_counterexample:
  "\<exists>b0 b1 b'. DuelBoard_init example_enums = Some b0 \<and>
     FillPile example_enums 0 2 1 b0 = Done () b1 \<and> length (fst (hand b1)) = 1 \<and>
     Forward example_enums
       (AppendMsg (InformationMsg (SwapCards example_hand_card example_hand_card)) b1) =
       Threw IllegalMove b' \<and>
     fst (hand b') = []"
proof -
  obtain b0 where b0: "DuelBoard_init example_enums = Some b0"
    using DuelBoard_init_defined by blast
  note f = DuelBoard_init_fields [OF b0]
  define b1 where "b1 = b0\<lparr>hand := ([Card_init\<lparr>pos := \<lparr>seq_l = [0, 10], seq_it = Suc 0\<rparr>\<rparr>], [])\<rparr>"
  have fp: "FillPile example_enums 0 2 1 b0 = Done () b1"
    unfolding b1_def by (rule FillPile_example_hand) (simp add: f)
  define b where "b = AppendMsg (InformationMsg (SwapCards example_hand_card example_hand_card)) b1"
  have hb: "msgs b = [InformationMsg (SwapCards example_hand_card example_hand_card)]"
    "state b = 0" "hand (forward_entry b) = hand b1"
    by (simp_all add: b_def b1_def AppendMsg_def f forward_entry_def)
  define b' where "b' = (forward_entry b)\<lparr>hand := ([], [])\<rparr>"
  have "HandleSwapCards example_enums example_hand_card example_hand_card (forward_entry b) =
      Threw IllegalMove b'"
    by (simp add: HandleSwapCards_def example_hand_place SwapCards_take_def hb b1_def
        erase_at_def MoveSingle_def b'_def)
  then have fw: "Forward example_enums b = Threw IllegalMove b'"
    by (simp add: Forward_step hb)
  have "length (fst (hand b1)) = 1" "fst (hand b') = []" by (simp_all add: b1_def b'_def)
  then show ?thesis using b0 fp fw unfolding b_def by blast
qed

text \<open>The instance: \<open>UpdateCard\<close> with reason \<open>MOVE\<close> from a place to itself, stepped
  forward, throws \<open>IllegalMove\<close> and leaves the board as it was.\<close>

theorem C3_handlers_on_throw_witness:
  "\<exists>b0 b. DuelBoard_init example_enums = Some b0 \<and>
     b = forward_entry
           (AppendMsg (InformationMsg (UpdateCard REASON_MOVE example_hand_card example_hand_card)) b0) \<and>
     advancing b \<and>
     MoveSingle example_enums (0, 2, 0, - 1) (0, 2, 0, - 1) b = Threw IllegalMove b \<and>
     InterpretMsg example_enums
       (InformationMsg (UpdateCard REASON_MOVE example_hand_card example_hand_card)) b =
       Threw IllegalMove b"
proof -
  obtain b0 where b0: "DuelBoard_init example_enums = Some b0"
    using DuelBoard_init_defined by blast
  let ?m = "InformationMsg (UpdateCard REASON_MOVE example_hand_card example_hand_card)"
  define b where "b = forward_entry (AppendMsg ?m b0)"
  have adv: "advancing b" by (simp add: b_def forward_entry_def)
  note t = C3_handlers_on_throw [of "(0, 2, 0, - 1)" "(0, 2, 0, - 1)" example_enums b IllegalMove _ ?m]
  have m: "MoveSingle example_enums (0, 2, 0, - 1) (0, 2, 0, - 1) b = Threw IllegalMove b"
    using t by blast
  then obtain b' where i: "InterpretMsg example_enums ?m b = Threw IllegalMove b'"
    using adv by (simp add: HandleUpdateCard_def example_hand_place)
  have "b' = b"
    using C3_handlers_on_throw [of "(0, 2, 0, - 1)" "(0, 2, 0, - 1)" example_enums b IllegalMove b' ?m]
      i adv by blast
  then show ?thesis using b0 adv m i b_def by blast
qed

section \<open>MoveSingle (C6)\<close>


lemma pile_deck_0: "pile b (PDeck, 0) = fst (deck b)"
  by (simp add: pile_def arr_at_def)

lemma set_pile_deck_0: "set_pile b (PDeck, 0) xs = b\<lparr>deck := (xs, snd (deck b))\<rparr>"
  by (simp add: set_pile_def arr_upd_def)


section \<open>Draw (C7)\<close>

subsection \<open>The two loops\<close>

lemma for_range_append:
  "for_range f (xs @ ys) s =
     (case for_range f xs s of None \<Rightarrow> None | Some s' \<Rightarrow> for_range f ys s')"
  by (induction xs arbitrary: s) (auto split: option.splits)

lemma for_range_upt_Suc:
  "for_range f [0..<Suc m] s =
     (case for_range f [0..<m] s of None \<Rightarrow> None | Some s' \<Rightarrow> f m s')"
  by (simp add: for_range_append split: option.splits)

lemma list_step_Some:
  assumes "i < length xs" "g (xs ! i) = Some y"
  shows "list_step i g xs = Some (xs[i := y])"
  using assms by (simp add: list_step_def)

lemma draw_loop_upto:
  assumes "m \<le> length ts" and "\<And>i. i < m \<Longrightarrow> g i (ts ! i) = Some (f i)"
  shows "for_range (\<lambda>i. list_step (length h + i) (g i)) [0..<m] (h @ ts) =
           Some (h @ map f [0..<m] @ drop m ts)"
  using assms
proof (induction m)
  case 0
  show ?case by simp
next
  case (Suc m)
  then have m: "m < length ts" by simp
  let ?cur = "h @ map f [0..<m] @ drop m ts"
  have ih: "for_range (\<lambda>i. list_step (length h + i) (g i)) [0..<m] (h @ ts) = Some ?cur"
    using Suc by simp
  have nth: "?cur ! (length h + m) = ts ! m"
    using m by (simp add: nth_append)
  have len: "length h + m < length ?cur" using m by simp
  have upd: "?cur[length h + m := f m] = h @ map f [0..<Suc m] @ drop (Suc m) ts"
  proof -
    have "?cur[length h + m := f m] = h @ (map f [0..<m] @ drop m ts)[m := f m]"
      by (simp add: list_update_append)
    also have "(map f [0..<m] @ drop m ts)[m := f m] = map f [0..<m] @ (drop m ts)[0 := f m]"
      by (simp add: list_update_append)
    also have "(drop m ts)[0 := f m] = f m # drop (Suc m) ts"
      using m by (simp add: Cons_nth_drop_Suc [symmetric])
    finally show ?thesis by simp
  qed
  have "g m (ts ! m) = Some (f m)" using Suc.prems(2) [of m] by simp
  then have "list_step (length h + m) (g m) ?cur = Some (?cur[length h + m := f m])"
    using len nth by (intro list_step_Some) simp_all
  then show ?case
    unfolding for_range_upt_Suc ih upd by simp
qed


lemma list_update_length_plus:
  "(xs @ ys)[length xs + k := v] = xs @ ys[k := v]"
  by (simp add: list_update_append)

lemma draw_loop:
  assumes "\<And>i. i < length ts \<Longrightarrow> g i (ts ! i) = Some (f i)"
  shows "for_range (\<lambda>i. list_step (length h + i) (g i)) [0..<length ts] (h @ ts) =
           Some (h @ map f [0..<length ts])"
  using draw_loop_upto [of "length ts" ts g f h] assms by simp

lemma undraw_loop_upto:
  assumes "m \<le> length zs" and "\<And>j. length zs - m \<le> j \<Longrightarrow> j < length zs \<Longrightarrow> g (zs ! j) = Some (f (zs ! j))"
  shows "for_range (\<lambda>i xs. if length zs < Suc i then None else list_step (length zs - i - 1) g xs)
           [0..<m] zs =
         Some (take (length zs - m) zs @ map f (drop (length zs - m) zs))"
  using assms
proof (induction m)
  case 0
  show ?case by simp
next
  case (Suc m)
  let ?N = "length zs"
  let ?cur = "take (?N - m) zs @ map f (drop (?N - m) zs)"
  have m: "m < ?N" using Suc.prems(1) by simp
  have ih: "for_range (\<lambda>i xs. if ?N < Suc i then None else list_step (?N - i - 1) g xs) [0..<m] zs
      = Some ?cur"
    using Suc by simp
  define j where "j = ?N - m - 1"
  have j: "j < ?N" "Suc j = ?N - m" "?N - Suc m = j" using m by (simp_all add: j_def)
  have nth: "?cur ! j = zs ! j" using j by (simp add: nth_append)
  have len: "j < length ?cur" using j by simp
  have g: "g (zs ! j) = Some (f (zs ! j))" using Suc.prems(2) [of j] j by simp
  have A: "take (Suc j) zs = take j zs @ [zs ! j]"
    using j(1) by (rule take_Suc_conv_app_nth)
  have C: "drop j zs = zs ! j # drop (Suc j) zs"
    using j(1) by (rule Cons_nth_drop_Suc [symmetric])
  have l: "length (take j zs) = j" using j(1) by simp
  have "?cur = take j zs @ ([zs ! j] @ map f (drop (Suc j) zs))"
    unfolding j(2) [symmetric] A by simp
  then have "?cur[j := f (zs ! j)] =
      (take j zs @ ([zs ! j] @ map f (drop (Suc j) zs)))[length (take j zs) + 0 := f (zs ! j)]"
    unfolding l by simp
  also have "\<dots> = take j zs @ ([zs ! j] @ map f (drop (Suc j) zs))[0 := f (zs ! j)]"
    by (rule list_update_length_plus)
  also have "\<dots> = take j zs @ map f (drop j zs)" unfolding C by simp
  finally have upd: "?cur[j := f (zs ! j)] = take (?N - Suc m) zs @ map f (drop (?N - Suc m) zs)"
    unfolding j(3) .
  have "list_step j g ?cur = Some (?cur[j := f (zs ! j)])"
    using len nth g by (intro list_step_Some) simp_all
  moreover have "\<not> ?N < Suc m" "?N - m - 1 = j" using m by (simp_all add: j_def)
  ultimately show ?case
    unfolding for_range_upt_Suc ih upd [symmetric] by simp
qed

subsection \<open>The handler in each direction\<close>

lemma code_step_AddOrNext:
  assumes "seq_it (code c) < length (seq_l (code c))"
  shows "code_step (AddOrNext rt cd) c = Some (drawn rt cd c)"
  using assms by (simp add: code_step_def AddOrNext_def drawn_def)

lemma code_step_Prev_drawn: "code_step Prev (drawn rt cd c) = Some (undrawn rt cd c)"
  by (simp add: code_step_def Prev_def drawn_def undrawn_def)

lemma undrawn_replay: "undrawn False cd c = c"
  by (simp add: undrawn_def)

lemma undrawn_reads:
  assumes "seq_it (code c) < length (seq_l (code c))"
  shows "Sequential_get (code (undrawn rt cd c)) = Sequential_get (code c)"
  using assms by (simp add: undrawn_def Sequential_get_def nth_append)

lemma drawn_reads:
  assumes "Suc (seq_it (code c)) = length (seq_l (code c))"
  shows "Sequential_get (code (drawn True cd c)) = Some cd"
  using assms by (simp add: drawn_def Sequential_get_def nth_append)

lemma HandleDraw_forward:
  assumes adv: "advancing b" and pl: "player < 2"
    and d: "d = arr_at (deck b) player" and h: "h = arr_at (hand b) player"
    and n: "length cards \<le> length d"
    and ok: "\<And>i. i < length cards \<Longrightarrow>
               seq_it (code (rev d ! i)) < length (seq_l (code (rev d ! i)))"
  shows "HandleDraw player cards b =
     Done () (b\<lparr>deck := arr_upd (deck b) player (take (length d - length cards) d),
                hand := arr_upd (hand b) player
                  (h @ map (\<lambda>i. drawn (realtime b) (ci_code (cards ! i)) (rev d ! i))
                         [0..<length cards])\<rparr>)"
proof -
  let ?ts = "take (length cards) (rev d)"
  have len: "length ?ts = length cards" using n by simp
  have g: "code_step (AddOrNext (realtime b) (ci_code (cards ! i))) (?ts ! i) =
      Some (drawn (realtime b) (ci_code (cards ! i)) (rev d ! i))" if "i < length ?ts" for i
    using that ok [of i] len by (simp add: code_step_AddOrNext)
  have loop: "for_range (\<lambda>i. list_step (length h + i)
        (code_step (AddOrNext (realtime b) (ci_code (cards ! i))))) [0..<length cards] (h @ ?ts) =
      Some (h @ map (\<lambda>i. drawn (realtime b) (ci_code (cards ! i)) (rev d ! i)) [0..<length cards])"
    using draw_loop [of ?ts "\<lambda>i. code_step (AddOrNext (realtime b) (ci_code (cards ! i)))"
        "\<lambda>i. drawn (realtime b) (ci_code (cards ! i)) (rev d ! i)" h] g
    unfolding len by blast
  have p: "\<not> 2 \<le> player" using pl by (simp add: not_le)
  show ?thesis
    unfolding HandleDraw_def Let_def d [symmetric] h [symmetric]
    using adv p n loop by simp
qed

lemma HandleDraw_backward:
  assumes adv: "\<not> advancing b" and pl: "player < 2"
    and d: "d = arr_at (deck b) player" and h: "arr_at (hand b) player = h @ ts"
    and n: "length ts = length cards"
    and ok: "\<And>c. c \<in> set ts \<Longrightarrow> code_step Prev c = Some (f c)"
  shows "HandleDraw player cards b =
     Done () (b\<lparr>deck := arr_upd (deck b) player (d @ rev (map f ts)),
                hand := arr_upd (hand b) player h\<rparr>)"
proof -
  define zs where "zs = h @ ts"
  define k where "k = length cards"
  have m: "k \<le> length zs" using n by (simp add: zs_def k_def)
  have g: "code_step Prev (zs ! j) = Some (f (zs ! j))"
    if "length zs - k \<le> j" "j < length zs" for j
  proof -
    from that n have "length h \<le> j" "j - length h < length ts" by (simp_all add: zs_def k_def)
    then have "zs ! j = ts ! (j - length h)" "ts ! (j - length h) \<in> set ts"
      by (simp_all add: nth_append zs_def)
    then show ?thesis using ok by simp
  qed
  have td: "take (length zs - k) zs = h" "drop (length zs - k) zs = ts"
    using n by (simp_all add: zs_def k_def)
  have "for_range (\<lambda>i xs. if length zs < Suc i then None
          else list_step (length zs - i - 1) (code_step Prev) xs) [0..<k] zs =
      Some (take (length zs - k) zs @ map f (drop (length zs - k) zs))"
    using m g by (rule undraw_loop_upto)
  then have loop: "for_range (\<lambda>i xs. if length zs < Suc i then None
          else list_step (length zs - i - 1) (code_step Prev) xs) [0..<k] zs =
      Some (h @ map f ts)" unfolding td .
  have p: "\<not> 2 \<le> player" using pl by (simp add: not_le)
  have t: "take k (rev (h @ map f ts)) = rev (map f ts)"
    "take (length (h @ map f ts) - k) (h @ map f ts) = h" "\<not> length (h @ map f ts) < k"
    using n by (simp_all add: k_def)
  have hz: "arr_at (hand b) player = zs" using h by (simp add: zs_def)
  show ?thesis
    unfolding HandleDraw_def Let_def d [symmetric] hz k_def [symmetric]
    by (simp only: adv p loop t if_False option.case)
qed


lemma arr_upd_upd [simp]: "arr_upd (arr_upd a i x) i y = arr_upd a i y"
  by (simp add: arr_upd_def)

lemma arr_upd_at: "i < 2 \<Longrightarrow> arr_upd a i (arr_at a i) = a"
  by (auto simp: arr_upd_def arr_at_def u32_less_2)

lemma take_rev_nths:
  assumes "n \<le> length d"
  shows "take n (rev d) = map (\<lambda>i. rev d ! i) [0..<n]"
  using assms by (intro nth_equalityI) simp_all

lemma split_top:
  assumes "n \<le> length d"
  shows "take (length d - n) d @ rev (map (\<lambda>i. rev d ! i) [0..<n]) = d"
proof -
  have "rev (take n (rev d)) = drop (length d - n) d" by (simp add: rev_take)
  then show ?thesis using take_rev_nths [OF assms] by simp
qed

text \<open>
  C7. A \<open>Draw\<close> message of player 0 or 1 at the cursor, with no more cards than the deck
  holds and the code cells of the top \<open>n\<close> deck cards readable. \<open>Forward\<close> returns: the deck
  loses its top \<open>n\<close> cards, the hand keeps its cards and gains these \<open>n\<close> at its tail, the
  top card first, and the card at hand position \<open>handSize + i\<close> is the \<open>i\<close>-th card from
  the top with \<open>cards[i].code\<close> stepped into its code cell. \<open>Backward\<close> on that board
  returns as well: the hand is the original hand, the deck has the same \<open>n\<close> cards back on
  top in their order, with the code cursors where they were, so every code cell reads what
  it read before; the board differs from the original one only in the direction flags,
  \<open>processedState\<close> and the values kept beyond the cursors, and when re-walking the deck
  is the original deck.
\<close>

theorem C7_Draw:
  assumes st: "unat (state b) < length (msgs b)" and len: "length (msgs b) < 2 ^ 32"
    and msg: "msgs b ! unat (state b) = InformationMsg (Draw player cards)"
    and pl: "player < 2"
    and d: "d = arr_at (deck b) player" and h: "h = arr_at (hand b) player"
    and n: "n = length cards" and rt: "rt = (state b = processedState b)"
    and le: "n \<le> length d"
    and ok: "\<forall>i<n. seq_it (code (rev d ! i)) < length (seq_l (code (rev d ! i)))"
  shows "\<exists>b' b''.
     Forward L b = Done () b' \<and>
     b' = (forward_entry b)
            \<lparr>deck := arr_upd (deck b) player (take (length d - n) d),
             hand := arr_upd (hand b) player
                       (h @ map (\<lambda>i. drawn rt (ci_code (cards ! i)) (rev d ! i)) [0..<n]),
             state := state b + 1\<rparr> \<and>
     length (arr_at (deck b') player) = length d - n \<and>
     length (arr_at (hand b') player) = length h + n \<and>
     take (length h) (arr_at (hand b') player) = h \<and>
     (\<forall>i<n. code_step (AddOrNext rt (ci_code (cards ! i))) (rev d ! i) =
               Some (arr_at (hand b') player ! (length h + i))) \<and>
     Backward L b' = Done () b'' \<and>
     b'' = b\<lparr>realtime := False, advancing := False,
              processedState := (if rt then processedState b + 1 else processedState b),
              deck := arr_upd (deck b) player
                        (take (length d - n) d @
                         rev (map (\<lambda>i. undrawn rt (ci_code (cards ! i)) (rev d ! i)) [0..<n]))\<rparr> \<and>
     arr_at (hand b'') player = h \<and>
     length (arr_at (deck b'') player) = length d \<and>
     map (Sequential_get \<circ> code) (arr_at (deck b'') player) = map (Sequential_get \<circ> code) d \<and>
     (\<not> rt \<longrightarrow> arr_at (deck b'') player = d)"
proof -
  let ?fe = "forward_entry b"
  let ?tops = "map (\<lambda>i. drawn rt (ci_code (cards ! i)) (rev d ! i)) [0..<n]"
  let ?restored = "map (\<lambda>i. undrawn rt (ci_code (cards ! i)) (rev d ! i)) [0..<n]"
  define b1 where "b1 = ?fe\<lparr>deck := arr_upd (deck b) player (take (length d - n) d),
      hand := arr_upd (hand b) player (h @ ?tops)\<rparr>"
  define b' where "b' = b1\<lparr>state := state b + 1\<rparr>"
  define b'' where "b'' = b\<lparr>realtime := False, advancing := False,
      processedState := (if rt then processedState b + 1 else processedState b),
      deck := arr_upd (deck b) player (take (length d - n) d @ rev ?restored)\<rparr>"
  have fe: "advancing ?fe" "deck ?fe = deck b" "hand ?fe = hand b" "realtime ?fe = rt"
    "msgs ?fe = msgs b" "state ?fe = state b"
    by (simp_all add: forward_entry_def rt)
  have hd: "HandleDraw player cards ?fe = Done () b1"
    unfolding b1_def n
    using HandleDraw_forward [of ?fe player d h cards] fe pl d h le ok
    by (simp add: n)
  have sb1: "state b1 = state b" by (simp add: b1_def fe)
  have fw: "Forward L b = Done () b'"
    using st msg hd sb1 by (simp add: Forward_step b'_def)
  have s1: "state b' \<noteq> 0" "unat (state b' - 1) < length (msgs b')" "state b' - 1 = state b"
    "msgs b' = msgs b"
    using state_succ [OF st len] st by (simp_all add: b'_def b1_def fe)
  let ?be = "backward_entry b'"
  have be: "\<not> advancing ?be" "arr_at (deck ?be) player = take (length d - n) d"
    "arr_at (hand ?be) player = h @ ?tops"
    by (simp_all add: backward_entry_def b'_def b1_def)
  have prev: "code_step Prev c = Some ((\<lambda>c. the (code_step Prev c)) c)" if "c \<in> set ?tops" for c
    using that by (auto simp: code_step_Prev_drawn)
  have un: "map (\<lambda>c. the (code_step Prev c)) ?tops = ?restored"
    by (simp add: code_step_Prev_drawn comp_def)
  have hb: "HandleDraw player cards ?be =
      Done () (?be\<lparr>deck := arr_upd (deck ?be) player (take (length d - n) d @ rev ?restored),
                   hand := arr_upd (hand ?be) player h\<rparr>)"
    using HandleDraw_backward [of ?be player "take (length d - n) d" h ?tops cards
        "\<lambda>c. the (code_step Prev c)"] be pl prev
    unfolding un by (simp add: n)
  have eq: "?be\<lparr>deck := arr_upd (deck ?be) player (take (length d - n) d @ rev ?restored),
                   hand := arr_upd (hand ?be) player h\<rparr> = b''"
    using arr_upd_at [OF pl, of "hand b"] s1(3)
    by (simp add: backward_entry_def b'_def b1_def b''_def forward_entry_def h rt)
  have bw: "Backward L b' = Done () b''"
    using s1 msg hb eq by (simp add: Backward_step)
  have c1: "length (arr_at (deck b') player) = length d - n"
    "length (arr_at (hand b') player) = length h + n"
    "take (length h) (arr_at (hand b') player) = h"
    by (simp_all add: b'_def b1_def)
  have c2: "\<forall>i<n. code_step (AddOrNext rt (ci_code (cards ! i))) (rev d ! i) =
               Some (arr_at (hand b') player ! (length h + i))"
    using ok by (simp add: b'_def b1_def code_step_AddOrNext)
  have c3: "arr_at (hand b'') player = h" by (simp add: b''_def h)
  have dk: "arr_at (deck b'') player = take (length d - n) d @ rev ?restored" by (simp add: b''_def)
  have c4: "length (arr_at (deck b'') player) = length d" using le by (simp add: dk)
  have rd: "map (Sequential_get \<circ> code) ?restored = map (Sequential_get \<circ> code) (map (\<lambda>i. rev d ! i) [0..<n])"
    using ok by (simp add: undrawn_reads)
  have "map (Sequential_get \<circ> code) (arr_at (deck b'') player) =
      map (Sequential_get \<circ> code) (take (length d - n) d @ rev (map (\<lambda>i. rev d ! i) [0..<n]))"
    unfolding dk map_append rev_map [symmetric] rd ..
  then have c5: "map (Sequential_get \<circ> code) (arr_at (deck b'') player) = map (Sequential_get \<circ> code) d"
    unfolding split_top [OF le] .
  have c6: "\<not> rt \<longrightarrow> arr_at (deck b'') player = d"
    using split_top [OF le] by (simp add: dk undrawn_replay)
  have b'eq: "b' = ?fe\<lparr>deck := arr_upd (deck b) player (take (length d - n) d),
             hand := arr_upd (hand b) player (h @ ?tops), state := state b + 1\<rparr>"
    by (simp add: b'_def b1_def)
  show ?thesis
    using fw b'eq c1 c2 bw b''_def c3 c4 c5 c6 by blast
qed

lemma for_each_replicate:
  assumes "f x = Some y"
  shows "for_each f (replicate k x) = Some (replicate k y)"
  using assms by (induction k) simp_all

lemma FillPile_example_deck:
  assumes "deck b = ([], [])" and "0 \<le> k"
  shows "FillPile example_enums 0 1 k b =
     Done () (b\<lparr>deck := (replicate (nat k) (Card_init\<lparr>pos := \<lparr>seq_l = [0, 10], seq_it = Suc 0\<rparr>\<rparr>), [])\<rparr>)"
proof -
  have "pos_step (AddOrNext True (PositionFaceDown example_enums)) Card_init =
      Some (Card_init\<lparr>pos := \<lparr>seq_l = [0, 10], seq_it = Suc 0\<rparr>\<rparr>)"
    by (simp add: pos_step_def AddOrNext_def Card_init_def Sequential_init_def example_enums_def)
  then have "for_each (pos_step (AddOrNext True (PositionFaceDown example_enums)))
      (replicate (nat k) Card_init) =
      Some (replicate (nat k) (Card_init\<lparr>pos := \<lparr>seq_l = [0, 10], seq_it = Suc 0\<rparr>\<rparr>))"
    by (rule for_each_replicate)
  moreover have "GetPile example_enums 0 1 b = Done (PDeck, 0) b"
    by (simp add: GetPile_def pile_ref_def example_enums_def)
  ultimately show ?thesis
    using assms by (simp add: FillPile_def resize_def pile_deck_0 set_pile_deck_0)
qed

text \<open>The instance: a deck of 40 face-down cards, an empty hand, and a draw of the codes
  1234 and 5678. After \<open>Forward\<close> the deck has 38 cards and the hand reads 1234 and 5678;
  after \<open>Backward\<close> the deck has 40 cards and the hand is empty.\<close>

theorem C7_Draw_witness:
  "\<exists>b0 b1 b' b''. DuelBoard_init example_enums = Some b0 \<and>
     FillPile example_enums 0 1 40 b0 = Done () b1 \<and>
     length (fst (deck b1)) = 40 \<and> fst (hand b1) = [] \<and>
     Forward example_enums (AppendMsg example_Draw b1) = Done () b' \<and>
     length (fst (deck b')) = 38 \<and>
     map (Sequential_get \<circ> code) (fst (hand b')) = [Some 1234, Some 5678] \<and>
     Backward example_enums b' = Done () b'' \<and>
     length (fst (deck b'')) = 40 \<and> fst (hand b'') = []"
proof -
  obtain b0 where b0: "DuelBoard_init example_enums = Some b0"
    using DuelBoard_init_defined by blast
  note f = DuelBoard_init_fields [OF b0]
  define fd where "fd = Card_init\<lparr>pos := \<lparr>seq_l = [0, 10], seq_it = Suc 0\<rparr>\<rparr>"
  define b1 where "b1 = b0\<lparr>deck := (replicate 40 fd, [])\<rparr>"
  have fp: "FillPile example_enums 0 1 40 b0 = Done () b1"
    using FillPile_example_deck [of b0 40] f(5) by (simp add: b1_def fd_def)
  define cards where "cards =
       [\<lparr>ci_controller = 0, ci_location = 1, ci_sequence = 0, ci_overlay_sequence = 0,
          ci_code = 1234, ci_position = 0\<rparr>,
        \<lparr>ci_controller = 0, ci_location = 1, ci_sequence = 0, ci_overlay_sequence = 0,
          ci_code = 5678, ci_position = 0\<rparr> :: CardInfo]"
  define b where "b = AppendMsg example_Draw b1"
  have hb: "msgs b = [InformationMsg (Draw 0 cards)]" "state b = 0" "processedState b = 0"
    "deck b = (replicate 40 fd, [])" "hand b = ([], [])"
    by (simp_all add: b_def b1_def AppendMsg_def f example_Draw_def cards_def)
  have fdc: "code fd = \<lparr>seq_l = [0], seq_it = 0\<rparr>"
    by (simp add: fd_def Card_init_def Sequential_init_def)
  have u: "[0..<2] = [0, Suc 0]" by (simp add: numeral_2_eq_2)
  have ok: "\<forall>i<2. seq_it (code (rev (replicate 40 fd) ! i)) <
      length (seq_l (code (rev (replicate 40 fd) ! i)))"
    by (simp add: fdc)
  have p: "unat (state b) < length (msgs b)" "length (msgs b) < 2 ^ 32"
    "msgs b ! unat (state b) = InformationMsg (Draw 0 cards)" "(0 :: u32) < 2"
    "replicate 40 fd = arr_at (deck b) 0" "[] = arr_at (hand b) 0" "2 = length cards"
    "True = (state b = processedState b)" "2 \<le> length (replicate 40 fd)"
    by (simp_all add: hb arr_at_def cards_def)
  obtain b' b'' where r: "Forward example_enums b = Done () b'"
    "b' = (forward_entry b)
            \<lparr>deck := arr_upd (deck b) 0 (take (length (replicate 40 fd) - 2) (replicate 40 fd)),
             hand := arr_upd (hand b) 0
                       ([] @ map (\<lambda>i. drawn True (ci_code (cards ! i)) (rev (replicate 40 fd) ! i)) [0..<2]),
             state := state b + 1\<rparr>"
    "Backward example_enums b' = Done () b''"
    "arr_at (hand b'') 0 = []"
    "length (arr_at (deck b'') 0) = length (replicate 40 fd)"
    using C7_Draw [of b 0 cards "replicate 40 fd" "[]" 2 True example_enums, OF p ok] by blast
  have "length (fst (deck b')) = 38"
    by (simp add: r(2) arr_upd_def)
  moreover have "map (Sequential_get \<circ> code) (fst (hand b')) = [Some 1234, Some 5678]"
    by (simp add: r(2) arr_upd_def u drawn_def fdc Sequential_get_def cards_def)
  moreover have "length (fst (deck b'')) = 40" "fst (hand b'') = []"
    using r(4,5) by (simp_all add: arr_at_def)
  moreover have "length (fst (deck b1)) = 40" "fst (hand b1) = []"
    by (simp_all add: b1_def f)
  ultimately have "DuelBoard_init example_enums = Some b0 \<and>
     FillPile example_enums 0 1 40 b0 = Done () b1 \<and>
     length (fst (deck b1)) = 40 \<and> fst (hand b1) = [] \<and>
     Forward example_enums (AppendMsg example_Draw b1) = Done () b' \<and>
     length (fst (deck b')) = 38 \<and>
     map (Sequential_get \<circ> code) (fst (hand b')) = [Some 1234, Some 5678] \<and>
     Backward example_enums b' = Done () b'' \<and>
     length (fst (deck b'')) = 40 \<and> fst (hand b'') = []"
    using b0 fp r(1,3) unfolding b_def by (intro conjI)
  then show ?thesis by (intro exI)
qed

section \<open>The round trip (C1)\<close>

subsection \<open>Cells and cards\<close>

lemma cell_le_refl [simp]: "cell_le s s"
  by (simp add: cell_le_def)



lemma entries_le_refl [simp]: "entries_le xs xs"
  by (simp add: entries_le_def list_all2_same)

lemma card_le_refl [simp]: "card_le c c"
  by (simp add: card_le_def)






subsection \<open>Runs\<close>



subsection \<open>One message forward, then backward on a board with longer histories\<close>


















subsection \<open>Extension is kept by the updates of the handlers\<close>







lemma pile_set_pile [simp]: "pile (set_pile x p cs) p = cs"
  by (cases "fst p") (simp_all add: pile_def set_pile_def)


lemma set_pile_fields [simp]:
  "fieldZones (set_pile x p cs) = fieldZones x" "tempCards (set_pile x p cs) = tempCards x"
  "state (set_pile x p cs) = state x" "realtime (set_pile x p cs) = realtime x"
  "advancing (set_pile x p cs) = advancing x"
  by (cases "fst p"; simp add: set_pile_def)+

lemma pile_other_fields [simp]:
  "pile (x\<lparr>fieldZones := fz\<rparr>) p = pile x p" "pile (x\<lparr>tempCards := tc\<rparr>) p = pile x p"
  by (cases "fst p"; simp add: pile_def)+

lemma set_pile_other_fields:
  "set_pile (x\<lparr>fieldZones := fz\<rparr>) p cs = (set_pile x p cs)\<lparr>fieldZones := fz\<rparr>"
  "set_pile (x\<lparr>tempCards := tc\<rparr>) p cs = (set_pile x p cs)\<lparr>tempCards := tc\<rparr>"
  by (cases "fst p"; simp add: set_pile_def)+

lemma fieldZones_undo:
  "x\<lparr>fieldZones := (fieldZones x)(place := v)\<rparr>
      \<lparr>fieldZones := ((fieldZones x)(place := v))(place := fieldZones x place)\<rparr> = x"
  by simp

lemma tempCards_undo:
  "x\<lparr>tempCards := (tempCards x)(t := v)\<rparr>
      \<lparr>tempCards := ((tempCards x)(t := v))(t := tempCards x t)\<rparr> = x"
  by simp

subsection \<open>One card stepped forward, then backward\<close>






lemma code_step_pos: "code_step f c = Some c' \<Longrightarrow> pos c' = pos c"
  by (auto simp: code_step_def)

lemma pos_step_code: "pos_step f c = Some c' \<Longrightarrow> code c' = code c"
  by (auto simp: pos_step_def)









lemma list_all2_erase_at:
  assumes "list_all2 P xs ys"
  shows "list_all2 P (erase_at i xs) (erase_at i ys)"
  unfolding erase_at_def
  using assms by (intro list_all2_appendI list_all2_takeI list_all2_dropI)


lemma erase_at_insert_at:
  assumes "i \<le> length xs"
  shows "erase_at i (insert_at i a xs) = xs"
  using assms by (simp add: insert_at_def erase_at_def)








end
